theory Spec2Isabelle
  imports Complex_Main "HOL-Library.Multiset"
begin

section \<open>Prime spirals in 3D: the geometry, projection and interaction core\<close>

text \<open>
  The development embeds the core of \<^verbatim>\<open>src/App.tsx\<close>: the prime sieve, the four
  coordinate generators, the projector, the scene builder and the pointer and wheel
  handlers of \<^verbatim>\<open>Canvas3D\<close>.

  Conventions of the embedding.
  \<^item> A TypeScript \<^verbatim>\<open>number\<close> that holds a measurement (a coordinate, an angle, a
    zoom factor) is a mathematical \<^typ>\<open>real\<close>: rounding of IEEE doubles, infinities
    and NaN are not modelled. A \<^verbatim>\<open>number\<close> that counts or indexes (the limit of the
    sieve, \<^verbatim>\<open>N\<close>, a point's index, a pointer identifier) is an \<^typ>\<open>int\<close>.
  \<^item> \<^verbatim>\<open>Math.cos\<close>, \<^verbatim>\<open>Math.sin\<close> and \<^verbatim>\<open>Math.sqrt\<close> are the real functions
    \<^term>\<open>cos\<close>, \<^term>\<open>sin\<close> and \<^term>\<open>sqrt\<close>; \<^verbatim>\<open>Math.hypot(a, b)\<close> is
    \<^term>\<open>sqrt (a\<^sup>2 + b\<^sup>2)\<close>.
  \<^item> The only division of the core whose divisor can vanish is the perspective
    division of \<^verbatim>\<open>project\<close>, at rotated depth \<open>-10\<close>. There JavaScript yields
    \<^verbatim>\<open>Infinity\<close> while HOL's \<open>1 / 0\<close> is \<open>0\<close>; no theorem below reads the
    quotient at that depth except as the unevaluated source expression.
  \<^item> React state (\<^verbatim>\<open>rotation\<close>, \<^verbatim>\<open>zoom\<close>, \<^verbatim>\<open>isDragging\<close>) and refs
    (\<^verbatim>\<open>lastPos\<close>, \<^verbatim>\<open>pointers\<close>, \<^verbatim>\<open>pinch\<close>) are fields of one state record;
    a handler is a function from the old state to the new one, and every state update
    a handler requests is applied before the next event is handled.
\<close>

subsection \<open>Projector\<close>

text \<open>
  \<^verbatim>\<open>interface Point3D { n: number; x: number; y: number; z: number; }\<close>
  The fields carry a prefix: a one-letter constant would capture the variables of
  every later statement.
\<close>

record Point3D =
  p_n :: int
  p_x :: real
  p_y :: real
  p_z :: real

text \<open>
  The props and state \<^verbatim>\<open>project\<close> closes over: \<^verbatim>\<open>width\<close>, \<^verbatim>\<open>height\<close>,
  \<^verbatim>\<open>rotation = {x, y}\<close>, \<^verbatim>\<open>zoom\<close> and \<^verbatim>\<open>perspective\<close>.
\<close>

record view =
  width :: real
  height :: real
  rotX :: real
  rotY :: real
  vzoom :: real
  perspective :: bool

text \<open>
  The object \<^verbatim>\<open>{ x, y, z, p }\<close> that \<^verbatim>\<open>project\<close> returns: screen position,
  rotated depth and perspective scale.
\<close>

record projection =
  proj_x :: real
  proj_y :: real
  proj_z :: real
  proj_p :: real

text \<open>
  \<^verbatim>\<open>
  const project = (pt: { x: number; y: number; z: number }) => {
    const cx = width / 2, cy = height / 2;
    const scale = Math.min(width, height) * 0.12 * zoom;
    const cosX = Math.cos(rotation.x), sinX = Math.sin(rotation.x);
    const cosY = Math.cos(rotation.y), sinY = Math.sin(rotation.y);
    const y1 = pt.y * cosX - pt.z * sinX;
    const z1 = pt.y * sinX + pt.z * cosX;
    const x2 = pt.x * cosY + z1 * sinY;
    const z2 = -pt.x * sinY + z1 * cosY;
    const persp = perspective ? (1 / (1 + z2 * 0.1)) : 1;
    return { x: cx + x2 * scale * persp, y: cy + y1 * scale * persp, z: z2, p: persp };
  };
  \<close>
  The argument is the triple of the point's coordinates, as the source's parameter
  type has it (the axes overlay calls \<^verbatim>\<open>project\<close> on points without an index).
\<close>

definition project :: "view \<Rightarrow> real \<times> real \<times> real \<Rightarrow> projection" where
  "project v pt =
     (case pt of (ptx, pty, ptz) \<Rightarrow>
      let cx = width v / 2; cy = height v / 2;
          scale = min (width v) (height v) * 0.12 * vzoom v;
          cosX = cos (rotX v); sinX = sin (rotX v);
          cosY = cos (rotY v); sinY = sin (rotY v);
          y1 = pty * cosX - ptz * sinX;
          z1 = pty * sinX + ptz * cosX;
          x2 = ptx * cosY + z1 * sinY;
          z2 = - ptx * sinY + z1 * cosY;
          persp = (if perspective v then 1 / (1 + z2 * 0.1) else 1)
      in \<lparr>proj_x = cx + x2 * scale * persp, proj_y = cy + y1 * scale * persp,
           proj_z = z2, proj_p = persp\<rparr>)"

text \<open>The coordinates of a generated point, as \<^verbatim>\<open>project(p)\<close> reads them.\<close>

definition coords :: "Point3D \<Rightarrow> real \<times> real \<times> real" where
  "coords p = (p_x p, p_y p, p_z p)"

text \<open>
  The projector as the specification words it (section 4.3, steps 1 to 5), kept apart
  from the source's definition so that the two can be compared.
\<close>

definition spec_scale :: "real \<Rightarrow> real \<Rightarrow> real \<Rightarrow> real" where
  "spec_scale w h zm = min w h * 0.12 * zm"

definition spec_y1 :: "real \<Rightarrow> real \<Rightarrow> real \<Rightarrow> real" where
  "spec_y1 rx py pz = py * cos rx - pz * sin rx"

definition spec_z1 :: "real \<Rightarrow> real \<Rightarrow> real \<Rightarrow> real" where
  "spec_z1 rx py pz = py * sin rx + pz * cos rx"

definition spec_x2 :: "real \<Rightarrow> real \<Rightarrow> real \<Rightarrow> real \<Rightarrow> real \<Rightarrow> real" where
  "spec_x2 rx ry px py pz = px * cos ry + spec_z1 rx py pz * sin ry"

definition spec_z2 :: "real \<Rightarrow> real \<Rightarrow> real \<Rightarrow> real \<Rightarrow> real \<Rightarrow> real" where
  "spec_z2 rx ry px py pz = - px * sin ry + spec_z1 rx py pz * cos ry"

definition spec_perspectiveScale :: "bool \<Rightarrow> real \<Rightarrow> real" where
  "spec_perspectiveScale enabled z2 = (if enabled then 1 / (1 + z2 * 0.1) else 1)"


subsection \<open>Prime sieve\<close>

text \<open>
  \<^verbatim>\<open>
  function sievePrimes(limit: number): number[] {
    if (limit < 2) return [];
    const sieve = new Array(limit + 1).fill(true);
    sieve[0] = sieve[1] = false;
    const upper = Math.floor(Math.sqrt(limit));
    for (let p = 2; p <= upper; p++) {
      if (sieve[p]) for (let i = p * p; i <= limit; i += p) sieve[i] = false;
    }
    return sieve.map((isPrime, i) => (isPrime ? i : -1)).filter(n => n > 0);
  }
  \<close>
  The array is a \<^typ>\<open>bool list\<close> of length \<open>limit + 1\<close>. Every write of the inner
  loop is at an index \<open>i \<le> limit\<close> and every read of the outer loop at an index
  \<open>p \<le> upper \<le> limit\<close>, so the list operations are only used in range. The platform's
  bound on the length of an array and its memory are not modelled.

  The inner loop \<^verbatim>\<open>for (let i = p * p; i <= limit; i += p)\<close> does not terminate for
  a step \<open>p \<le> 0\<close>; it is embedded as it is written, with \<open>None\<close> for not returning,
  and that it returns for the steps the outer loop passes is proved below.
\<close>

partial_function (option) sieve_inner :: "int \<Rightarrow> int \<Rightarrow> int \<Rightarrow> bool list \<Rightarrow> bool list option" where
  "sieve_inner p limit i sieve =
     (if i \<le> limit then sieve_inner p limit (i + p) (sieve[nat i := False]) else Some sieve)"

function sieve_outer :: "int \<Rightarrow> int \<Rightarrow> int \<Rightarrow> bool list \<Rightarrow> bool list option" where
  "sieve_outer p upper limit sieve =
     (if p \<le> upper then
        (if sieve ! nat p then
           (case sieve_inner p limit (p * p) sieve of
              None \<Rightarrow> None
            | Some sieve' \<Rightarrow> sieve_outer (p + 1) upper limit sieve')
         else sieve_outer (p + 1) upper limit sieve)
      else Some sieve)"
  by pat_completeness auto
termination
  by (relation "measure (\<lambda>(p, upper, limit, sieve). nat (upper + 1 - p))") auto

definition sievePrimes :: "int \<Rightarrow> int list option" where
  "sievePrimes limit =
     (if limit < 2 then Some []
      else
        let sieve = (replicate (nat (limit + 1)) True)[1 := False, 0 := False];
            upper = \<lfloor>sqrt (real_of_int limit)\<rfloor>
        in map_option
             (\<lambda>sieve'. filter (\<lambda>m. 0 < m)
                         (map (\<lambda>i. if sieve' ! i then int i else - 1) [0..<length sieve']))
             (sieve_outer 2 upper limit sieve))"

text \<open>
  Trial division as the specification words it: \<open>m\<close> in \<open>[2, limit]\<close> with no divisor
  in \<open>[2, \<lfloor>\<surd>m\<rfloor>]\<close>.
\<close>

definition spec_prime_set :: "int \<Rightarrow> int set" where
  "spec_prime_set limit =
     {m. 2 \<le> m \<and> m \<le> limit \<and> (\<forall>d. 2 \<le> d \<and> d \<le> \<lfloor>sqrt (real_of_int m)\<rfloor> \<longrightarrow> \<not> d dvd m)}"

text \<open>
  The invariant of the outer loop before the pass for \<open>p\<close>: the array has its
  length, and an entry \<open>m\<close> is still marked exactly when \<open>m \<ge> 2\<close> and no \<open>d\<close> with
  \<open>2 \<le> d < p\<close> and \<open>d\<^sup>2 \<le> m\<close> divides \<open>m\<close>.
\<close>

definition sieve_inv :: "int \<Rightarrow> int \<Rightarrow> bool list \<Rightarrow> bool" where
  "sieve_inv limit p s \<longleftrightarrow>
     length s = nat (limit + 1)
     \<and> (\<forall>m. 0 \<le> m \<and> m \<le> limit \<longrightarrow>
           (s ! nat m \<longleftrightarrow> 2 \<le> m \<and> (\<forall>d. 2 \<le> d \<and> d < p \<and> d * d \<le> m \<longrightarrow> \<not> d dvd m)))"

subsection \<open>Geometry generators\<close>

text \<open>
  All four generators share one loop,
  \<^verbatim>\<open>for (let n = 1; n <= N; n++) { ...; points.push({ n, x: ..., y: ..., z: ... }); }\<close>,
  embedded once with the pushed point as a function of the counter.
\<close>

function push_loop :: "int \<Rightarrow> int \<Rightarrow> (int \<Rightarrow> Point3D) \<Rightarrow> Point3D list \<Rightarrow> Point3D list" where
  "push_loop i N body points =
     (if i \<le> N then push_loop (i + 1) N body (points @ [body i]) else points)"
  by pat_completeness auto
termination
  by (relation "measure (\<lambda>(i, N, body, points). nat (N + 1 - i))") auto

text \<open>
  \<^verbatim>\<open>
  const t = n * stepAngle;
  points.push({ n, x: radius * Math.cos(t), y: radius * Math.sin(t), z: pitch * t });
  \<close>
\<close>

definition helix_point :: "real \<Rightarrow> real \<Rightarrow> real \<Rightarrow> int \<Rightarrow> Point3D" where
  "helix_point stepAngle radius pitch i =
     (let t = real_of_int i * stepAngle
      in \<lparr>p_n = i, p_x = radius * cos t, p_y = radius * sin t, p_z = pitch * t\<rparr>)"

definition coordsHelix :: "int \<Rightarrow> real \<Rightarrow> real \<Rightarrow> real \<Rightarrow> Point3D list" where
  "coordsHelix N stepAngle radius pitch = push_loop 1 N (helix_point stepAngle radius pitch) []"

text \<open>
  \<^verbatim>\<open>
  const z = (2.0 * (n - 1)) / Math.max(N - 1, 1) - 1.0;
  const r = Math.sqrt(Math.max(0, 1 - z * z));
  const theta = n * stepAngle;
  points.push({ n, x: r * cos(theta), y: r * sin(theta), z });
  \<close>
  The denominator, the height, the radicand and the radius are named, since the
  specification speaks of each.
\<close>

definition spherical_denominator :: "int \<Rightarrow> int" where
  "spherical_denominator N = max (N - 1) 1"

definition spherical_z :: "int \<Rightarrow> int \<Rightarrow> real" where
  "spherical_z N i = (2.0 * real_of_int (i - 1)) / real_of_int (spherical_denominator N) - 1.0"

definition spherical_radicand :: "real \<Rightarrow> real" where
  "spherical_radicand zz = max 0 (1 - zz * zz)"

definition spherical_r :: "int \<Rightarrow> int \<Rightarrow> real" where
  "spherical_r N i = sqrt (spherical_radicand (spherical_z N i))"

definition spherical_point :: "int \<Rightarrow> real \<Rightarrow> int \<Rightarrow> Point3D" where
  "spherical_point N stepAngle i =
     (let zz = spherical_z N i;
          r = spherical_r N i;
          theta = real_of_int i * stepAngle
      in \<lparr>p_n = i, p_x = r * cos theta, p_y = r * sin theta, p_z = zz\<rparr>)"

definition coordsSphericalSpiral :: "int \<Rightarrow> real \<Rightarrow> Point3D list" where
  "coordsSphericalSpiral N stepAngle = push_loop 1 N (spherical_point N stepAngle) []"

text \<open>
  \<^verbatim>\<open>
  const t = n * stepAngle;
  const r = a + b * t;
  points.push({ n, x: r * Math.cos(t), y: r * Math.sin(t), z: c * t });
  \<close>
\<close>

definition conical_point :: "real \<Rightarrow> real \<Rightarrow> real \<Rightarrow> real \<Rightarrow> int \<Rightarrow> Point3D" where
  "conical_point stepAngle a b c i =
     (let t = real_of_int i * stepAngle;
          r = a + b * t
      in \<lparr>p_n = i, p_x = r * cos t, p_y = r * sin t, p_z = c * t\<rparr>)"

definition coordsConicalArchimedean :: "int \<Rightarrow> real \<Rightarrow> real \<Rightarrow> real \<Rightarrow> real \<Rightarrow> Point3D list" where
  "coordsConicalArchimedean N stepAngle a b c = push_loop 1 N (conical_point stepAngle a b c) []"

text \<open>
  JavaScript's \<^verbatim>\<open>%\<close> on numbers: the remainder of the division truncated towards
  zero, exact on doubles. (A zero divisor gives NaN; the generator's divisor is at
  least one.)
\<close>

definition js_rem :: "real \<Rightarrow> real \<Rightarrow> real" where
  "js_rem u d = u - d * real_of_int (if 0 \<le> u / d then \<lfloor>u / d\<rfloor> else \<lceil>u / d\<rceil>)"

text \<open>
  \<^verbatim>\<open>
  const safe = Math.max(blockSize, 1);
  for (...) {
    const layer = Math.floor((n - 1) / safe);
    const idxInLayer = (n - 1) % safe;
    const theta = idxInLayer * stepAngle;
    points.push({ n, x: layerRadius * Math.cos(theta), y: layerRadius * Math.sin(theta), z: layer });
  }
  \<close>
\<close>

definition layered_safe :: "real \<Rightarrow> real" where
  "layered_safe blockSize = max blockSize 1"

definition layered_layer :: "real \<Rightarrow> int \<Rightarrow> int" where
  "layered_layer safe i = \<lfloor>real_of_int (i - 1) / safe\<rfloor>"

definition layered_idxInLayer :: "real \<Rightarrow> int \<Rightarrow> real" where
  "layered_idxInLayer safe i = js_rem (real_of_int (i - 1)) safe"

definition layered_point :: "real \<Rightarrow> real \<Rightarrow> real \<Rightarrow> int \<Rightarrow> Point3D" where
  "layered_point safe layerRadius stepAngle i =
     (let layer = layered_layer safe i;
          idxInLayer = layered_idxInLayer safe i;
          theta = idxInLayer * stepAngle
      in \<lparr>p_n = i, p_x = layerRadius * cos theta, p_y = layerRadius * sin theta,
           p_z = real_of_int layer\<rparr>)"

definition coordsLayeredTime :: "int \<Rightarrow> real \<Rightarrow> real \<Rightarrow> real \<Rightarrow> Point3D list" where
  "coordsLayeredTime N blockSize layerRadius stepAngle =
     (let safe = layered_safe blockSize
      in push_loop 1 N (layered_point safe layerRadius stepAngle) [])"

text \<open>
  The mode, and the \<^verbatim>\<open>points\<close> memo of \<^verbatim>\<open>App\<close> that dispatches on it:
  \<^verbatim>\<open>
  switch (mode) {
    case 'helix': return coordsHelix(N, stepAngle, radius, pitch);
    case 'spherical': return coordsSphericalSpiral(N, stepAngle);
    case 'conical': return coordsConicalArchimedean(N, stepAngle, a, b, c);
    case 'layered': return coordsLayeredTime(N, blockSize, layerRadius, stepAngle);
    default: return [];
  }
  \<close>
  The mode's type has the four values only, so the default branch has no counterpart.
\<close>

datatype mode = Helix | Spherical | Conical | Layered

record params =
  stepAngle :: real
  radius :: real
  pitch :: real
  coef_a :: real
  coef_b :: real
  coef_c :: real
  blockSize :: real
  layerRadius :: real

definition points :: "mode \<Rightarrow> int \<Rightarrow> params \<Rightarrow> Point3D list" where
  "points md N ps =
     (case md of
        Helix \<Rightarrow> coordsHelix N (stepAngle ps) (radius ps) (pitch ps)
      | Spherical \<Rightarrow> coordsSphericalSpiral N (stepAngle ps)
      | Conical \<Rightarrow> coordsConicalArchimedean N (stepAngle ps) (coef_a ps) (coef_b ps) (coef_c ps)
      | Layered \<Rightarrow> coordsLayeredTime N (blockSize ps) (layerRadius ps) (stepAngle ps))"

subsection \<open>Scene builder\<close>

text \<open>An element of the \<^verbatim>\<open>projected\<close> array: \<^verbatim>\<open>{ x, y, z, n, r, prime }\<close>.\<close>

record dot =
  dot_x :: real
  dot_y :: real
  dot_z :: real
  dot_n :: int
  dot_r :: real
  dot_prime :: bool

text \<open>
  \<^verbatim>\<open>
  for (const p of points) {
    const prime = primes.has(p.n);
    if (!prime && !showAllNumbers) continue;
    const pr = project(p);
    const r = Math.max(1, (dotSize) * pr.p);
    arr.push({ x: pr.x, y: pr.y, z: pr.z, n: p.n, r, prime });
  }
  arr.sort((a, b) => a.z - b.z);
  return arr;
  \<close>
  The prime set is a set of integers, read by membership only. The comparator
  orders by the difference of two depths, so \<^verbatim>\<open>sort\<close> (stable since ES2019) is the
  stable sort by ascending depth.
\<close>

fun projected_loop :: "view \<Rightarrow> int set \<Rightarrow> real \<Rightarrow> bool \<Rightarrow> Point3D list \<Rightarrow> dot list \<Rightarrow> dot list" where
  "projected_loop v primes dotSize showAllNumbers [] arr = arr"
| "projected_loop v primes dotSize showAllNumbers (p # ps) arr =
     (let prime = (p_n p \<in> primes) in
      if \<not> prime \<and> \<not> showAllNumbers then projected_loop v primes dotSize showAllNumbers ps arr
      else
        let pr = project v (coords p);
            r = max 1 (dotSize * proj_p pr)
        in projected_loop v primes dotSize showAllNumbers ps
             (arr @ [\<lparr>dot_x = proj_x pr, dot_y = proj_y pr, dot_z = proj_z pr,
                       dot_n = p_n p, dot_r = r, dot_prime = prime\<rparr>]))"

definition projected :: "view \<Rightarrow> Point3D list \<Rightarrow> int set \<Rightarrow> real \<Rightarrow> bool \<Rightarrow> dot list" where
  "projected v pts primes dotSize showAllNumbers =
     sort_key dot_z (projected_loop v primes dotSize showAllNumbers pts [])"

text \<open>
  The object the loop pushes for a retained point, as a function of the point; the
  statements about the scene are phrased with it.
\<close>

definition scene_dot :: "view \<Rightarrow> int set \<Rightarrow> real \<Rightarrow> Point3D \<Rightarrow> dot" where
  "scene_dot v primes dotSize p =
     \<lparr>dot_x = proj_x (project v (coords p)), dot_y = proj_y (project v (coords p)),
      dot_z = proj_z (project v (coords p)), dot_n = p_n p,
      dot_r = max 1 (dotSize * proj_p (project v (coords p))), dot_prime = (p_n p \<in> primes)\<rparr>"

subsection \<open>Interaction controller\<close>

text \<open>
  The camera and gesture state of \<^verbatim>\<open>Canvas3D\<close>: the props \<^verbatim>\<open>rotation\<close> (as the
  pair \<open>(x, y)\<close>) and \<^verbatim>\<open>zoom\<close>, the state \<^verbatim>\<open>isDragging\<close>, and the refs
  \<^verbatim>\<open>lastPos\<close>, \<^verbatim>\<open>pointers\<close> (a \<^verbatim>\<open>Map\<close> from pointer identifier to position, kept
  in insertion order as an association list with distinct keys) and \<^verbatim>\<open>pinch\<close>
  (\<^verbatim>\<open>{ startDist, startZoom } | null\<close>).
\<close>

record pinch_base =
  startDist :: real
  startZoom :: real

record canvas =
  rotation :: "real \<times> real"
  zoom :: real
  isDragging :: bool
  lastPos :: "real \<times> real"
  pointers :: "(int \<times> (real \<times> real)) list"
  pinch :: "pinch_base option"

text \<open>
  \<^verbatim>\<open>Map.prototype.set\<close>, \<^verbatim>\<open>has\<close> and \<^verbatim>\<open>delete\<close>: setting a key that is
  present replaces its value in place, a new key goes last.
\<close>

fun map_set :: "int \<Rightarrow> 'v \<Rightarrow> (int \<times> 'v) list \<Rightarrow> (int \<times> 'v) list" where
  "map_set k v [] = [(k, v)]"
| "map_set k v ((k', v') # m) = (if k' = k then (k, v) # m else (k', v') # map_set k v m)"

fun map_has :: "int \<Rightarrow> (int \<times> 'v) list \<Rightarrow> bool" where
  "map_has k [] = False"
| "map_has k ((k', v') # m) = (k' = k \<or> map_has k m)"

fun map_delete :: "int \<Rightarrow> (int \<times> 'v) list \<Rightarrow> (int \<times> 'v) list" where
  "map_delete k [] = []"
| "map_delete k ((k', v') # m) = (if k' = k then m else (k', v') # map_delete k m)"

text \<open>\<^verbatim>\<open>Math.hypot(dx, dy)\<close>.\<close>

definition hypot :: "real \<Rightarrow> real \<Rightarrow> real" where
  "hypot dx dy = sqrt (dx\<^sup>2 + dy\<^sup>2)"

text \<open>
  The distance of the two contacts,
  \<^verbatim>\<open>const [a, b] = [...pointers.current.values()]; Math.hypot(a.x - b.x, a.y - b.y)\<close>;
  both handlers read it only when the map has exactly two entries.
\<close>

definition contact_distance :: "(int \<times> (real \<times> real)) list \<Rightarrow> real" where
  "contact_distance m =
     (let ca = snd (m ! 0); cb = snd (m ! 1);
          dx = fst ca - fst cb; dy = snd ca - snd cb
      in hypot dx dy)"

text \<open>
  \<^verbatim>\<open>
  const onPointerDown = (e) => {
    pointers.current.set(e.pointerId, { x: e.clientX, y: e.clientY });
    if (pointers.current.size === 1) {
      setIsDragging(true);
      lastPos.current = { x: e.clientX, y: e.clientY };
    } else if (pointers.current.size === 2) {
      const [a, b] = [...pointers.current.values()];
      const dx = a.x - b.x, dy = a.y - b.y;
      pinch.current = { startDist: Math.hypot(dx, dy), startZoom: zoom };
    }
  };
  \<close>
\<close>

definition onPointerDown :: "int \<Rightarrow> real \<Rightarrow> real \<Rightarrow> canvas \<Rightarrow> canvas" where
  "onPointerDown pointerId clientX clientY st =
     (let st1 = st\<lparr>pointers := map_set pointerId (clientX, clientY) (pointers st)\<rparr> in
      if length (pointers st1) = 1 then
        st1\<lparr>isDragging := True, lastPos := (clientX, clientY)\<rparr>
      else if length (pointers st1) = 2 then
        st1\<lparr>pinch := Some \<lparr>startDist = contact_distance (pointers st1), startZoom = zoom st\<rparr>\<rparr>
      else st1)"

text \<open>
  \<^verbatim>\<open>
  const onPointerMove = (e) => {
    if (!pointers.current.has(e.pointerId)) return;
    pointers.current.set(e.pointerId, { x: e.clientX, y: e.clientY });
    if (pointers.current.size === 1 && isDragging) {
      const dx = e.clientX - lastPos.current.x;
      const dy = e.clientY - lastPos.current.y;
      lastPos.current = { x: e.clientX, y: e.clientY };
      setRotation(prev => ({ x: prev.x + dy * 0.01, y: prev.y + dx * 0.01 }));
    } else if (pointers.current.size === 2 && pinch.current) {
      const [a, b] = [...pointers.current.values()];
      const dx = a.x - b.x, dy = a.y - b.y;
      const dist = Math.hypot(dx, dy);
      const factor = dist / Math.max(1, pinch.current.startDist);
      setZoom(z => Math.max(0.1, Math.min(5, pinch.current!.startZoom * factor)));
    }
  };
  \<close>
\<close>

definition onPointerMove :: "int \<Rightarrow> real \<Rightarrow> real \<Rightarrow> canvas \<Rightarrow> canvas" where
  "onPointerMove pointerId clientX clientY st =
     (if \<not> map_has pointerId (pointers st) then st
      else
        let st1 = st\<lparr>pointers := map_set pointerId (clientX, clientY) (pointers st)\<rparr> in
        if length (pointers st1) = 1 \<and> isDragging st1 then
          let dx = clientX - fst (lastPos st1);
              dy = clientY - snd (lastPos st1)
          in st1\<lparr>lastPos := (clientX, clientY),
                 rotation := (fst (rotation st1) + dy * 0.01, snd (rotation st1) + dx * 0.01)\<rparr>
        else if length (pointers st1) = 2 \<and> pinch st1 \<noteq> None then
          (case pinch st1 of
             None \<Rightarrow> st1
           | Some base \<Rightarrow>
               let dist = contact_distance (pointers st1);
                   factor = dist / max 1 (startDist base)
               in st1\<lparr>zoom := max 0.1 (min 5 (startZoom base * factor))\<rparr>)
        else st1)"

text \<open>
  \<^verbatim>\<open>
  const onPointerUp = (e) => {
    pointers.current.delete(e.pointerId);
    if (pointers.current.size < 2) pinch.current = null;
    if (pointers.current.size === 0) setIsDragging(false);
  };
  \<close>
\<close>

definition onPointerUp :: "int \<Rightarrow> canvas \<Rightarrow> canvas" where
  "onPointerUp pointerId st =
     (let st1 = st\<lparr>pointers := map_delete pointerId (pointers st)\<rparr>;
          st2 = (if length (pointers st1) < 2 then st1\<lparr>pinch := None\<rparr> else st1)
      in if length (pointers st2) = 0 then st2\<lparr>isDragging := False\<rparr> else st2)"

text \<open>
  \<^verbatim>\<open>
  const onWheel = (e) => {
    e.preventDefault();
    const k = e.ctrlKey ? 0.0025 : 0.001;
    setZoom(prev => Math.max(0.1, Math.min(5, prev + (-e.deltaY) * k)));
  };
  \<close>
\<close>

definition onWheel :: "real \<Rightarrow> bool \<Rightarrow> canvas \<Rightarrow> canvas" where
  "onWheel deltaY ctrlKey st =
     (let k = (if ctrlKey then 0.0025 else 0.001)
      in st\<lparr>zoom := max 0.1 (min 5 (zoom st + (- deltaY) * k))\<rparr>)"

text \<open>The events of the canvas, and the handler each one runs.\<close>

datatype event =
    PointerDown int real real
  | PointerMove int real real
  | PointerUp int
  | Wheel real bool

fun handle :: "event \<Rightarrow> canvas \<Rightarrow> canvas" where
  "handle (PointerDown pointerId clientX clientY) st = onPointerDown pointerId clientX clientY st"
| "handle (PointerMove pointerId clientX clientY) st = onPointerMove pointerId clientX clientY st"
| "handle (PointerUp pointerId) st = onPointerUp pointerId st"
| "handle (Wheel deltaY ctrlKey) st = onWheel deltaY ctrlKey st"

fun run :: "event list \<Rightarrow> canvas \<Rightarrow> canvas" where
  "run [] st = st"
| "run (e # es) st = run es (handle e st)"

text \<open>
  The state of a freshly mounted canvas: \<^verbatim>\<open>useState({ x: 0, y: 0 })\<close>,
  \<^verbatim>\<open>useState(1)\<close>, \<^verbatim>\<open>useState(false)\<close>, \<^verbatim>\<open>useRef({ x: 0, y: 0 })\<close>,
  \<^verbatim>\<open>useRef(new Map())\<close>, \<^verbatim>\<open>useRef(null)\<close>.
\<close>

definition initial :: canvas where
  "initial = \<lparr>rotation = (0, 0), zoom = 1, isDragging = False, lastPos = (0, 0),
              pointers = [], pinch = None\<rparr>"

text \<open>\<open>clamp(v, lo, hi)\<close>, as the specification uses it.\<close>

definition clamp :: "real \<Rightarrow> real \<Rightarrow> real \<Rightarrow> real" where
  "clamp v lo hi = max lo (min hi v)"

section \<open>Properties of the projector\<close>

lemma project_proj_z:
  "proj_z (project v (px, py, pz)) =
     - px * sin (rotY v) + (py * sin (rotX v) + pz * cos (rotX v)) * cos (rotY v)"
  by (simp add: project_def Let_def)

lemma project_proj_p:
  "proj_p (project v pt) = (if perspective v then 1 / (1 + proj_z (project v pt) * 0.1) else 1)"
  by (cases pt) (simp add: project_def Let_def)

text \<open>
  Claim C2. For every point, camera state, viewport and perspective flag,
  \<open>project\<close> returns \<open>screenX = width/2 + x2 * scale * perspectiveScale\<close>,
  \<open>screenY = height/2 + y1 * scale * perspectiveScale\<close> and \<open>depth = z2\<close>, with
  \<open>scale\<close>, \<open>y1\<close>, \<open>z1\<close>, \<open>x2\<close>, \<open>z2\<close> and \<open>perspectiveScale\<close> as the
  specification defines them (the returned scale factor is that \<open>perspectiveScale\<close>);
  and with both rotations zero, zoom one and perspective disabled the screen position
  is \<open>(width/2 + x * scale, height/2 + y * scale)\<close> with \<open>scale = min(width, height) * 0.12\<close>,
  whatever \<open>z\<close> is.
\<close>

theorem C2_project_formula:
  "project \<lparr>width = w, height = h, rotX = rx, rotY = ry, vzoom = zm, perspective = en\<rparr> (px, py, pz) =
     \<lparr>proj_x = w / 2 + spec_x2 rx ry px py pz * spec_scale w h zm
             * spec_perspectiveScale en (spec_z2 rx ry px py pz),
      proj_y = h / 2 + spec_y1 rx py pz * spec_scale w h zm
             * spec_perspectiveScale en (spec_z2 rx ry px py pz),
      proj_z = spec_z2 rx ry px py pz,
      proj_p = spec_perspectiveScale en (spec_z2 rx ry px py pz)\<rparr>
   \<and> proj_x (project \<lparr>width = w, height = h, rotX = 0, rotY = 0, vzoom = 1, perspective = False\<rparr> (px, py, pz))
       = w / 2 + px * spec_scale w h 1
   \<and> proj_y (project \<lparr>width = w, height = h, rotX = 0, rotY = 0, vzoom = 1, perspective = False\<rparr> (px, py, pz))
       = h / 2 + py * spec_scale w h 1
   \<and> proj_x (project \<lparr>width = w, height = h, rotX = 0, rotY = 0, vzoom = 1, perspective = False\<rparr> (px, py, pz'))
       = proj_x (project \<lparr>width = w, height = h, rotX = 0, rotY = 0, vzoom = 1, perspective = False\<rparr> (px, py, pz))
   \<and> proj_y (project \<lparr>width = w, height = h, rotX = 0, rotY = 0, vzoom = 1, perspective = False\<rparr> (px, py, pz'))
       = proj_y (project \<lparr>width = w, height = h, rotX = 0, rotY = 0, vzoom = 1, perspective = False\<rparr> (px, py, pz))"
  by (simp add: project_def Let_def spec_x2_def spec_z2_def spec_z1_def spec_y1_def
      spec_scale_def spec_perspectiveScale_def)

text \<open>
  Claim C10. The depth \<open>project\<close> returns depends only on the point's coordinates
  and the two rotation angles: zoom, viewport size and the perspective flag do not
  enter it.
\<close>

theorem C10_depth_independent:
  "proj_z (project \<lparr>width = w, height = h, rotX = rx, rotY = ry, vzoom = zm, perspective = en\<rparr> pt)
     = proj_z (project \<lparr>width = w', height = h', rotX = rx, rotY = ry, vzoom = zm', perspective = en'\<rparr> pt)"
  by (cases pt) (simp add: project_def Let_def)

section \<open>Properties of the generators\<close>

declare push_loop.simps [simp del]

lemma push_loop_upto: "push_loop i N body acc = acc @ map body [i..N]"
proof (induction i N body acc rule: push_loop.induct)
  case (1 i N body acc)
  show ?case
  proof (cases "i \<le> N")
    case True
    have "push_loop i N body acc = push_loop (i + 1) N body (acc @ [body i])"
      using True by (subst push_loop.simps) simp
    also have "\<dots> = (acc @ [body i]) @ map body [i + 1..N]"
      using "1" True by simp
    also have "\<dots> = acc @ map body [i..N]"
      using True by (simp add: upto_rec1 [of i N])
    finally show ?thesis .
  next
    case False
    then show ?thesis by (subst push_loop.simps) simp
  qed
qed

lemma push_loop_nth:
  assumes "0 \<le> k" and "k < N"
  shows "push_loop 1 N body [] ! nat k = body (k + 1)"
proof -
  have "nat k < length [1..N]" using assms by simp
  then have "map body [1..N] ! nat k = body ([1..N] ! nat k)" by (rule nth_map)
  also have "[1..N] ! nat k = 1 + int (nat k)" using assms by (intro nth_upto) simp
  finally show ?thesis using assms by (simp add: push_loop_upto add.commute)
qed

lemma p_n_helix_point: "p_n (helix_point sa rd pt i) = i"
  by (simp add: helix_point_def Let_def)

lemma p_n_spherical_point: "p_n (spherical_point N sa i) = i"
  by (simp add: spherical_point_def Let_def)

lemma p_n_conical_point: "p_n (conical_point sa a b c i) = i"
  by (simp add: conical_point_def Let_def)

lemma p_n_layered_point: "p_n (layered_point sf lr sa i) = i"
  by (simp add: layered_point_def Let_def)

lemma map_p_n_points: "map p_n (points md N ps) = [1..N]"
  by (cases md)
     (simp_all add: points_def coordsHelix_def coordsSphericalSpiral_def
        coordsConicalArchimedean_def coordsLayeredTime_def Let_def push_loop_upto
        o_def p_n_helix_point p_n_spherical_point p_n_conical_point p_n_layered_point)

lemma length_points: "length (points md N ps) = nat N"
proof -
  have "length (points md N ps) = length (map p_n (points md N ps))" by simp
  also have "\<dots> = length [1..N]" by (simp only: map_p_n_points)
  finally show ?thesis by simp
qed

text \<open>
  Claim C3. For every mode and every integer \<open>N \<ge> 0\<close>, with any parameters, the
  generated sequence has length exactly \<open>N\<close>, is empty if and only if \<open>N = 0\<close>, and
  its \<open>k\<close>-th element carries the index \<open>k\<close> for \<open>k = 1..N\<close>: the indices are the
  dense sequence \<open>1..N\<close>.
\<close>

theorem C3_generators_dense:
  "0 \<le> N \<Longrightarrow>
     length (points md N ps) = nat N
     \<and> (points md N ps = [] \<longleftrightarrow> N = 0)
     \<and> map p_n (points md N ps) = [1..N]
     \<and> (\<forall>k. 1 \<le> k \<and> k \<le> N \<longrightarrow> p_n (points md N ps ! nat (k - 1)) = k)"
proof -
  assume N: "0 \<le> N"
  have len: "length (points md N ps) = nat N" by (rule length_points)
  have emp: "points md N ps = [] \<longleftrightarrow> N = 0"
  proof
    assume "points md N ps = []"
    then have "nat N = 0" using len by simp
    then show "N = 0" using N by simp
  next
    assume "N = 0"
    then show "points md N ps = []" using len by simp
  qed
  have m: "map p_n (points md N ps) = [1..N]" by (rule map_p_n_points)
  have nth: "\<forall>k. 1 \<le> k \<and> k \<le> N \<longrightarrow> p_n (points md N ps ! nat (k - 1)) = k"
  proof (intro allI impI)
    fix k assume k: "1 \<le> k \<and> k \<le> N"
    then have lt: "nat (k - 1) < length (points md N ps)" using len by simp
    have "p_n (points md N ps ! nat (k - 1)) = map p_n (points md N ps) ! nat (k - 1)"
      using lt by simp
    also have "\<dots> = [1..N] ! nat (k - 1)" by (simp only: m)
    also have "\<dots> = k" using k by simp
    finally show "p_n (points md N ps ! nat (k - 1)) = k" .
  qed
  from len emp m nth show ?thesis by blast
qed

theorem C3_generators_dense_witness:
  "length (points Layered 3 \<lparr>stepAngle = 0.35, radius = 1, pitch = 0.08, coef_a = 0.8,
       coef_b = 0.04, coef_c = 0.03, blockSize = 200, layerRadius = 6\<rparr>) = 3
   \<and> map p_n (points Layered 3 \<lparr>stepAngle = 0.35, radius = 1, pitch = 0.08, coef_a = 0.8,
       coef_b = 0.04, coef_c = 0.03, blockSize = 200, layerRadius = 6\<rparr>) = [1, 2, 3]
   \<and> p_n (points Layered 3 \<lparr>stepAngle = 0.35, radius = 1, pitch = 0.08, coef_a = 0.8,
       coef_b = 0.04, coef_c = 0.03, blockSize = 200, layerRadius = 6\<rparr> ! 1) = 2
   \<and> points Spherical 0 \<lparr>stepAngle = 0.35, radius = 1, pitch = 0.08, coef_a = 0.8,
       coef_b = 0.04, coef_c = 0.03, blockSize = 200, layerRadius = 6\<rparr> = []"
proof -
  let ?ps = "\<lparr>stepAngle = 0.35, radius = 1, pitch = 0.08, coef_a = 0.8,
       coef_b = 0.04, coef_c = 0.03, blockSize = 200, layerRadius = 6\<rparr>"
  have a: "(0::int) \<le> 3" and b: "(0::int) \<le> 0" by simp_all
  have u: "[1..3::int] = [1, 2, 3]" by (simp add: upto_rec1)
  from C3_generators_dense [OF a, of Layered ?ps] C3_generators_dense [OF b, of Spherical ?ps] u
  show ?thesis by (auto simp add: numeral_2_eq_2)
qed

text \<open>
  Claim C7. Degenerate generator inputs are normalised. The spherical generator at
  \<open>N = 1\<close> divides by \<open>max(N - 1, 1) = 1\<close> (the denominator is at least one for
  every \<open>N\<close>) and yields the single point \<open>z = -1\<close>, \<open>r = 0\<close>, \<open>x = y = 0\<close> for every
  step angle; the radius is the square root of \<open>max(0, 1 - z\<^sup>2)\<close>, a radicand that
  is never negative. The layered generator uses block size
  one for every \<open>blockSize \<le> 0\<close>; with block size 200 the numbers 1 and 200 are in
  layer 0, and 201 is in layer 1 at index 0 of the layer, which the generated points
  show in their heights and in the position of point 201.
\<close>

theorem C7_degenerate_inputs:
  "spherical_denominator 1 = 1 \<and> 1 \<le> spherical_denominator N
   \<and> spherical_z 1 1 = - 1 \<and> spherical_r 1 1 = 0
   \<and> coordsSphericalSpiral 1 sa = [\<lparr>p_n = 1, p_x = 0, p_y = 0, p_z = - 1\<rparr>]
   \<and> 0 \<le> spherical_radicand zz
   \<and> spherical_r N k = sqrt (max 0 (1 - spherical_z N k * spherical_z N k))
   \<and> (bs \<le> 0 \<longrightarrow> layered_safe bs = 1
        \<and> coordsLayeredTime M bs lr sa = coordsLayeredTime M 1 lr sa)
   \<and> layered_layer (layered_safe 200) 1 = 0
   \<and> layered_layer (layered_safe 200) 200 = 0
   \<and> layered_layer (layered_safe 200) 201 = 1
   \<and> layered_idxInLayer (layered_safe 200) 201 = 0
   \<and> (201 \<le> M \<longrightarrow>
        p_z (coordsLayeredTime M 200 lr sa ! 0) = 0
        \<and> p_z (coordsLayeredTime M 200 lr sa ! 199) = 0
        \<and> coordsLayeredTime M 200 lr sa ! 200 = \<lparr>p_n = 201, p_x = lr, p_y = 0, p_z = 1\<rparr>)"
proof -
  have sph: "spherical_denominator 1 = 1 \<and> 1 \<le> spherical_denominator N
      \<and> spherical_z 1 1 = - 1 \<and> spherical_r 1 1 = 0 \<and> 0 \<le> spherical_radicand zz"
    by (simp add: spherical_denominator_def spherical_z_def spherical_r_def
        spherical_radicand_def)
  have rad: "spherical_r N k = sqrt (max 0 (1 - spherical_z N k * spherical_z N k))"
    by (simp add: spherical_r_def spherical_radicand_def)
  have one: "coordsSphericalSpiral 1 sa = [\<lparr>p_n = 1, p_x = 0, p_y = 0, p_z = - 1\<rparr>]"
    by (simp add: coordsSphericalSpiral_def push_loop_upto spherical_point_def
        spherical_z_def spherical_r_def spherical_radicand_def spherical_denominator_def Let_def)
  have fl: "bs \<le> 0 \<longrightarrow> layered_safe bs = 1
        \<and> coordsLayeredTime M bs lr sa = coordsLayeredTime M 1 lr sa"
    by (simp add: coordsLayeredTime_def layered_safe_def Let_def)
  have lay: "layered_layer (layered_safe 200) 1 = 0 \<and> layered_layer (layered_safe 200) 200 = 0
      \<and> layered_layer (layered_safe 200) 201 = 1 \<and> layered_idxInLayer (layered_safe 200) 201 = 0"
    by (simp add: layered_layer_def layered_safe_def layered_idxInLayer_def js_rem_def)
  have gen: "201 \<le> M \<longrightarrow>
        p_z (coordsLayeredTime M 200 lr sa ! 0) = 0
        \<and> p_z (coordsLayeredTime M 200 lr sa ! 199) = 0
        \<and> coordsLayeredTime M 200 lr sa ! 200 = \<lparr>p_n = 201, p_x = lr, p_y = 0, p_z = 1\<rparr>"
  proof
    assume M: "201 \<le> M"
    have n0: "coordsLayeredTime M 200 lr sa ! nat 0 = layered_point (layered_safe 200) lr sa (0 + 1)"
      unfolding coordsLayeredTime_def Let_def using M by (intro push_loop_nth) simp_all
    have n199: "coordsLayeredTime M 200 lr sa ! nat 199 = layered_point (layered_safe 200) lr sa (199 + 1)"
      unfolding coordsLayeredTime_def Let_def using M by (intro push_loop_nth) simp_all
    have n200: "coordsLayeredTime M 200 lr sa ! nat 200 = layered_point (layered_safe 200) lr sa (200 + 1)"
      unfolding coordsLayeredTime_def Let_def using M by (intro push_loop_nth) simp_all
    show "p_z (coordsLayeredTime M 200 lr sa ! 0) = 0
        \<and> p_z (coordsLayeredTime M 200 lr sa ! 199) = 0
        \<and> coordsLayeredTime M 200 lr sa ! 200 = \<lparr>p_n = 201, p_x = lr, p_y = 0, p_z = 1\<rparr>"
      using n0 n199 n200 lay by (simp add: layered_point_def Let_def)
  qed
  from sph rad one fl lay gen show ?thesis by blast
qed

theorem C7_degenerate_inputs_witness:
  "layered_safe (- 5) = 1
   \<and> coordsLayeredTime 3 (- 5) 6 0.35 = coordsLayeredTime 3 1 6 0.35
   \<and> p_z (coordsLayeredTime 201 200 6 0.35 ! 199) = 0
   \<and> coordsLayeredTime 201 200 6 0.35 ! 200 = \<lparr>p_n = 201, p_x = 6, p_y = 0, p_z = 1\<rparr>"
  using C7_degenerate_inputs [where N = 1 and k = 1 and sa = "0.35" and zz = 0 and bs = "- 5"
      and M = 3 and lr = 6]
    C7_degenerate_inputs [where N = 1 and k = 1 and sa = "0.35" and zz = 0 and bs = "- 5"
      and M = 201 and lr = 6]
  by simp

section \<open>Properties of the scene builder\<close>

lemma projected_loop_filter:
  "projected_loop v primes dotSize showAll pts arr =
     arr @ map (scene_dot v primes dotSize) (filter (\<lambda>p. p_n p \<in> primes \<or> showAll) pts)"
  by (induction pts arbitrary: arr) (auto simp: Let_def scene_dot_def)

lemma projected_eq:
  "projected v pts primes dotSize showAll =
     sort_key dot_z (map (scene_dot v primes dotSize) (filter (\<lambda>p. p_n p \<in> primes \<or> showAll) pts))"
  by (simp add: projected_def projected_loop_filter)

lemma mset_projected:
  "mset (projected v pts primes dotSize showAll) =
     image_mset (scene_dot v primes dotSize) (mset (filter (\<lambda>p. p_n p \<in> primes \<or> showAll) pts))"
  by (simp add: projected_eq)

lemma mset_map_projected:
  assumes "\<And>p. f (scene_dot v primes dotSize p) = g p"
  shows "mset (map f (projected v pts primes dotSize showAll)) =
     mset (map g (filter (\<lambda>p. p_n p \<in> primes \<or> showAll) pts))"
proof -
  have "mset (map f (projected v pts primes dotSize showAll))
      = image_mset f (mset (projected v pts primes dotSize showAll))" by simp
  also have "\<dots> = image_mset f (image_mset (scene_dot v primes dotSize)
      (mset (filter (\<lambda>p. p_n p \<in> primes \<or> showAll) pts)))"
    by (simp only: mset_projected)
  also have "\<dots> = image_mset g (mset (filter (\<lambda>p. p_n p \<in> primes \<or> showAll) pts))"
    by (simp add: image_mset.compositionality o_def assms)
  finally show ?thesis by simp
qed

lemma map_sort_key: "map f (sort_key f xs) = sort (map f xs)"
proof -
  have "mset (map f (sort_key f xs)) = mset (map f xs)" by simp
  moreover have "sorted (map f (sort_key f xs))" by simp
  ultimately show ?thesis by (metis sorted_sort_id sort_key_def properties_for_sort)
qed

lemma dot_z_scene_dot: "dot_z (scene_dot v primes dotSize p) = proj_z (project v (coords p))"
  by (simp add: scene_dot_def)

text \<open>
  Claim C4. For every list of points, prime set, camera state, viewport and flags,
  the scene builder's output is the list of the retained points' dots (each with the
  screen position, depth and perspective scale of its point's projection, its point's
  index and the radius \<open>max(1, dotSize * perspectiveScale)\<close>), stably sorted by
  depth: its depths are the retained points' projected depths in non-decreasing
  order. With \<open>showAllNumbers\<close> false the retained points are exactly those whose
  index is in the prime set, with it true they are all points.
\<close>

theorem C4_scene_sorted_filtered:
  "sorted (map dot_z (projected v pts primes dotSize showAll))
   \<and> map dot_z (projected v pts primes dotSize showAll)
       = sort (map (\<lambda>p. proj_z (project v (coords p)))
                 (filter (\<lambda>p. p_n p \<in> primes \<or> showAll) pts))
   \<and> projected v pts primes dotSize showAll
       = sort_key dot_z
           (map (\<lambda>p. \<lparr>dot_x = proj_x (project v (coords p)),
                       dot_y = proj_y (project v (coords p)),
                       dot_z = proj_z (project v (coords p)),
                       dot_n = p_n p,
                       dot_r = max 1 (dotSize * proj_p (project v (coords p))),
                       dot_prime = (p_n p \<in> primes)\<rparr>)
              (filter (\<lambda>p. p_n p \<in> primes \<or> showAll) pts))
   \<and> mset (map (\<lambda>d. (dot_n d, dot_z d, dot_r d)) (projected v pts primes dotSize showAll))
       = mset (map (\<lambda>p. (p_n p, proj_z (project v (coords p)),
                          max 1 (dotSize * proj_p (project v (coords p)))))
                 (filter (\<lambda>p. p_n p \<in> primes \<or> showAll) pts))
   \<and> mset (map dot_n (projected v pts primes dotSize False))
       = mset (filter (\<lambda>i. i \<in> primes) (map p_n pts))
   \<and> mset (map dot_n (projected v pts primes dotSize True)) = mset (map p_n pts)
   \<and> mset (map (\<lambda>d. (dot_n d, dot_r d)) (projected v pts primes dotSize showAll))
       = mset (map (\<lambda>p. (p_n p, max 1 (dotSize * proj_p (project v (coords p)))))
                 (filter (\<lambda>p. p_n p \<in> primes \<or> showAll) pts))"
proof -
  let ?keep = "filter (\<lambda>p. p_n p \<in> primes \<or> showAll) pts"
  have s: "sorted (map dot_z (projected v pts primes dotSize showAll))"
    by (simp add: projected_def)
  have z: "map dot_z (projected v pts primes dotSize showAll)
       = sort (map (\<lambda>p. proj_z (project v (coords p))) ?keep)"
  proof -
    have "map dot_z (projected v pts primes dotSize showAll)
        = sort (map dot_z (map (scene_dot v primes dotSize) ?keep))"
      by (simp only: projected_eq map_sort_key)
    also have "map dot_z (map (scene_dot v primes dotSize) ?keep)
        = map (\<lambda>p. proj_z (project v (coords p))) ?keep"
      by (simp add: o_def dot_z_scene_dot)
    finally show ?thesis .
  qed
  have e: "projected v pts primes dotSize showAll
       = sort_key dot_z
           (map (\<lambda>p. \<lparr>dot_x = proj_x (project v (coords p)),
                       dot_y = proj_y (project v (coords p)),
                       dot_z = proj_z (project v (coords p)),
                       dot_n = p_n p,
                       dot_r = max 1 (dotSize * proj_p (project v (coords p))),
                       dot_prime = (p_n p \<in> primes)\<rparr>) ?keep)"
  proof -
    have "scene_dot v primes dotSize
        = (\<lambda>p. \<lparr>dot_x = proj_x (project v (coords p)),
                       dot_y = proj_y (project v (coords p)),
                       dot_z = proj_z (project v (coords p)),
                       dot_n = p_n p,
                       dot_r = max 1 (dotSize * proj_p (project v (coords p))),
                       dot_prime = (p_n p \<in> primes)\<rparr>)"
      by (rule ext) (simp add: scene_dot_def)
    then show ?thesis by (simp only: projected_eq)
  qed
  have t: "mset (map (\<lambda>d. (dot_n d, dot_z d, dot_r d)) (projected v pts primes dotSize showAll))
       = mset (map (\<lambda>p. (p_n p, proj_z (project v (coords p)),
                          max 1 (dotSize * proj_p (project v (coords p))))) ?keep)"
    by (rule mset_map_projected) (simp add: scene_dot_def)
  have n: "mset (map dot_n (projected v pts primes dotSize sh))
      = mset (map p_n (filter (\<lambda>p. p_n p \<in> primes \<or> sh) pts))" for sh
    by (rule mset_map_projected) (simp add: scene_dot_def)
  have nf: "mset (map dot_n (projected v pts primes dotSize False))
       = mset (filter (\<lambda>i. i \<in> primes) (map p_n pts))"
    using n [of False] by (simp add: filter_map o_def)
  have nt: "mset (map dot_n (projected v pts primes dotSize True)) = mset (map p_n pts)"
    using n [of True] by simp
  have r: "mset (map (\<lambda>d. (dot_n d, dot_r d)) (projected v pts primes dotSize showAll))
       = mset (map (\<lambda>p. (p_n p, max 1 (dotSize * proj_p (project v (coords p))))) ?keep)"
    by (rule mset_map_projected) (simp add: scene_dot_def)
  from s z e t nf nt r show ?thesis by (intro conjI)
qed

text \<open>
  The scene of two points run: with perspective off and no rotation the depth is the
  point's own \<open>z\<close>, so the deeper point 3 is drawn first, and the composite 4 is
  left out.
\<close>

lemma projected_example:
  "map dot_n (projected \<lparr>width = 800, height = 600, rotX = 0, rotY = 0, vzoom = 1, perspective = False\<rparr>
      [\<lparr>p_n = 2, p_x = 0, p_y = 0, p_z = 5\<rparr>, \<lparr>p_n = 3, p_x = 0, p_y = 0, p_z = 1\<rparr>,
       \<lparr>p_n = 4, p_x = 0, p_y = 0, p_z = 0\<rparr>] {2, 3} 3 False) = [3, 2]"
  by (simp add: projected_def coords_def project_def Let_def)

section \<open>Scale factors\<close>

lemma clamp_range: "lo \<le> hi \<Longrightarrow> lo \<le> clamp u lo hi \<and> clamp u lo hi \<le> hi"
  by (simp add: clamp_def)

lemma zoom_onWheel: "0.1 \<le> zoom (onWheel dY ck st) \<and> zoom (onWheel dY ck st) \<le> 5"
  by (simp add: onWheel_def Let_def)

lemma onPointerMove_zoom_cases:
  "zoom (onPointerMove i cx cy st) = zoom st
   \<or> (\<exists>u. zoom (onPointerMove i cx cy st) = clamp u 0.1 5)"
  by (cases "pinch st") (auto simp add: onPointerMove_def Let_def clamp_def)

lemma zoom_onPointerMove:
  "zoom (onPointerMove i cx cy st) = zoom st
   \<or> (0.1 \<le> zoom (onPointerMove i cx cy st) \<and> zoom (onPointerMove i cx cy st) \<le> 5)"
  using onPointerMove_zoom_cases [of i cx cy st] clamp_range [of "0.1" 5] by auto

lemma zoom_onPointerDown: "zoom (onPointerDown i cx cy st) = zoom st"
  by (simp add: onPointerDown_def Let_def)

lemma zoom_onPointerUp: "zoom (onPointerUp i st) = zoom st"
  by (simp add: onPointerUp_def Let_def)

lemma persp_regions:
  fixes d :: real
  shows "- 7 \<le> d \<and> d \<le> 80 \<Longrightarrow> 0.1 \<le> 1 / (1 + d * 0.1) \<and> 1 / (1 + d * 0.1) \<le> 5"
    and "- 10 < d \<and> d \<le> - 9 \<Longrightarrow> 10 \<le> 1 / (1 + d * 0.1)"
    and "d \<le> - 11 \<Longrightarrow> 1 / (1 + d * 0.1) < 0"
    and "100 \<le> d \<Longrightarrow> 0 < 1 / (1 + d * 0.1) \<and> 1 / (1 + d * 0.1) < 0.1"
proof -
  show "0.1 \<le> 1 / (1 + d * 0.1) \<and> 1 / (1 + d * 0.1) \<le> 5" if "- 7 \<le> d \<and> d \<le> 80"
  proof -
    from that have "0 < 1 + d * 0.1" by simp
    then show ?thesis using that by (simp add: field_simps)
  qed
  show "10 \<le> 1 / (1 + d * 0.1)" if "- 10 < d \<and> d \<le> - 9"
  proof -
    from that have "0 < 1 + d * 0.1" by simp
    then show ?thesis using that by (simp add: field_simps)
  qed
  show "1 / (1 + d * 0.1) < 0" if "d \<le> - 11"
  proof -
    from that have "1 + d * 0.1 < 0" by simp
    then show ?thesis by simp
  qed
  show "0 < 1 / (1 + d * 0.1) \<and> 1 / (1 + d * 0.1) < 0.1" if "100 \<le> d"
  proof -
    from that have "0 < 1 + d * 0.1" by simp
    then show ?thesis using that by (simp add: field_simps)
  qed
qed

section \<open>Properties of the interaction controller\<close>

lemma zoom_handle:
  assumes "0.1 \<le> zoom st \<and> zoom st \<le> 5"
  shows "0.1 \<le> zoom (handle e st) \<and> zoom (handle e st) \<le> 5"
proof (cases e)
  case (PointerDown i cx cy)
  then show ?thesis using assms by (simp add: zoom_onPointerDown)
next
  case (PointerMove i cx cy)
  then show ?thesis using assms zoom_onPointerMove [of i cx cy st] by auto
next
  case (PointerUp i)
  then show ?thesis using assms by (simp add: zoom_onPointerUp)
next
  case (Wheel dY ck)
  then show ?thesis using zoom_onWheel [of dY ck st] by simp
qed

text \<open>
  Claim C8. Starting from any zoom in \<open>[0.1, 5]\<close>, after any finite sequence of
  events of the canvas (wheel events and pinch moves among them, in any order with
  pointer-down, pointer-up and drag moves) the zoom is in \<open>[0.1, 5]\<close>.
\<close>

theorem C8_zoom_invariant:
  "0.1 \<le> zoom st \<and> zoom st \<le> 5 \<Longrightarrow> 0.1 \<le> zoom (run es st) \<and> zoom (run es st) \<le> 5"
proof (induction es arbitrary: st)
  case Nil
  then show ?case by simp
next
  case (Cons e es)
  from Cons.prems have "0.1 \<le> zoom (handle e st) \<and> zoom (handle e st) \<le> 5"
    by (rule zoom_handle)
  then show ?case using Cons.IH by simp
qed

theorem C8_zoom_invariant_witness:
  "0.1 \<le> zoom (run [Wheel (- 9000) False, PointerDown 1 0 0, PointerDown 2 100 0,
                       PointerMove 2 300 0, Wheel 120 True] initial)
   \<and> zoom (run [Wheel (- 9000) False, PointerDown 1 0 0, PointerDown 2 100 0,
                  PointerMove 2 300 0, Wheel 120 True] initial) \<le> 5"
proof -
  have "0.1 \<le> zoom initial \<and> zoom initial \<le> 5" by (simp add: initial_def)
  then show ?thesis by (rule C8_zoom_invariant)
qed

lemma hypot_0: "hypot dx 0 = \<bar>dx\<bar>"
  by (simp add: hypot_def)

lemma length_map_set_has: "map_has k m \<Longrightarrow> length (map_set k v m) = length m"
  by (induction m) auto

lemma map_set_new: "\<not> map_has k m \<Longrightarrow> map_set k v m = m @ [(k, v)]"
  by (induction m) auto

lemma pinch_start:
  assumes "length (pointers st) = 1" and "\<not> map_has j (pointers st)"
  shows "onPointerDown j cx cy st =
     st\<lparr>pointers := pointers st @ [(j, (cx, cy))],
        pinch := Some \<lparr>startDist = contact_distance (pointers st @ [(j, (cx, cy))]),
                        startZoom = zoom st\<rparr>\<rparr>"
  using assms by (simp add: onPointerDown_def Let_def map_set_new)

lemma pinch_move:
  assumes "length (pointers st) = 2" and "map_has i (pointers st)" and "pinch st = Some base"
  shows "onPointerMove i cx cy st =
     st\<lparr>pointers := map_set i (cx, cy) (pointers st),
        zoom := clamp (startZoom base * contact_distance (map_set i (cx, cy) (pointers st))
                         / max 1 (startDist base)) 0.1 5\<rparr>"
  using assms by (simp add: onPointerMove_def Let_def length_map_set_has clamp_def)

lemma two_contacts_rotation:
  assumes "length (pointers st) = 2"
  shows "rotation (onPointerMove i cx cy st) = rotation st"
proof (cases "map_has i (pointers st)")
  case True
  then have "length (map_set i (cx, cy) (pointers st)) = 2"
    using assms by (simp add: length_map_set_has)
  then show ?thesis by (simp add: onPointerMove_def Let_def split: option.split)
next
  case False
  then show ?thesis by (simp add: onPointerMove_def)
qed

lemma pinch_run_state:
  "run [PointerDown 1 0 0, PointerDown 2 sd 0] initial =
     \<lparr>rotation = (0, 0), zoom = 1, isDragging = True, lastPos = (0, 0),
      pointers = [(1, (0, 0)), (2, (sd, 0))],
      pinch = Some \<lparr>startDist = \<bar>sd\<bar>, startZoom = 1\<rparr>\<rparr>"
  by (simp add: initial_def onPointerDown_def Let_def contact_distance_def hypot_0)

text \<open>
  Claim C6 says that every derived scale factor, the perspective scale of
  \<open>project\<close> included, is clamped to \<open>[0.1, 5]\<close>. The code has no such clamp: at
  rotated depth \<open>-9\<close> the perspective scale is at least 10, and at depth \<open>-20\<close> it
  is negative.
\<close>

theorem C6_counterexample:
  "10 \<le> proj_p (project \<lparr>width = 800, height = 600, rotX = 0, rotY = 0, vzoom = 1, perspective = True\<rparr>
             (0, 0, - 9))
   \<and> \<not> (proj_p (project \<lparr>width = 800, height = 600, rotX = 0, rotY = 0, vzoom = 1, perspective = True\<rparr>
             (0, 0, - 9)) \<le> 5)
   \<and> proj_p (project \<lparr>width = 800, height = 600, rotX = 0, rotY = 0, vzoom = 1, perspective = True\<rparr>
             (0, 0, - 20)) < 0"
  by (simp add: project_def Let_def)

text \<open>
  Claim C6, amended. The zoom is what the code clamps: the wheel handler and every
  pinch move (a move of one of two active contacts with a recorded baseline) leave
  it in \<open>[0.1, 5]\<close>. The perspective scale is not clamped: it is 1 with perspective
  disabled, and otherwise the quotient \<open>1 / (1 + 0.1 * depth)\<close> as it comes, which
  is within \<open>[0.1, 5]\<close> for depths from \<open>-7\<close> to 80, but at least 10 for depths
  above \<open>-10\<close> up to \<open>-9\<close>, negative for depths up to \<open>-11\<close>, and positive below
  0.1 for depths from 100 on.
\<close>

theorem C6_scale_factors_amended:
  "(0.1 \<le> zoom (onWheel dY ck st) \<and> zoom (onWheel dY ck st) \<le> 5)
   \<and> (length (pointers st) = 2 \<and> map_has i (pointers st) \<and> pinch st = Some base \<longrightarrow>
        0.1 \<le> zoom (onPointerMove i cx cy st) \<and> zoom (onPointerMove i cx cy st) \<le> 5)
   \<and> (\<not> perspective v \<longrightarrow> proj_p (project v pt) = 1)
   \<and> (perspective v \<longrightarrow>
         proj_p (project v pt) = 1 / (1 + proj_z (project v pt) * 0.1)
         \<and> (- 7 \<le> proj_z (project v pt) \<and> proj_z (project v pt) \<le> 80 \<longrightarrow>
               0.1 \<le> proj_p (project v pt) \<and> proj_p (project v pt) \<le> 5)
         \<and> (- 10 < proj_z (project v pt) \<and> proj_z (project v pt) \<le> - 9 \<longrightarrow>
               10 \<le> proj_p (project v pt))
         \<and> (proj_z (project v pt) \<le> - 11 \<longrightarrow> proj_p (project v pt) < 0)
         \<and> (100 \<le> proj_z (project v pt) \<longrightarrow>
               0 < proj_p (project v pt) \<and> proj_p (project v pt) < 0.1))"
proof -
  have pm: "length (pointers st) = 2 \<and> map_has i (pointers st) \<and> pinch st = Some base \<longrightarrow>
        0.1 \<le> zoom (onPointerMove i cx cy st) \<and> zoom (onPointerMove i cx cy st) \<le> 5"
  proof
    assume h: "length (pointers st) = 2 \<and> map_has i (pointers st) \<and> pinch st = Some base"
    then have "zoom (onPointerMove i cx cy st)
        = clamp (startZoom base * contact_distance (map_set i (cx, cy) (pointers st))
                         / max 1 (startDist base)) 0.1 5"
      by (simp add: pinch_move)
    then show "0.1 \<le> zoom (onPointerMove i cx cy st) \<and> zoom (onPointerMove i cx cy st) \<le> 5"
      using clamp_range [of "0.1" 5] by simp
  qed
  have off: "\<not> perspective v \<longrightarrow> proj_p (project v pt) = 1"
    by (simp add: project_proj_p)
  have on: "perspective v \<longrightarrow>
         proj_p (project v pt) = 1 / (1 + proj_z (project v pt) * 0.1)
         \<and> (- 7 \<le> proj_z (project v pt) \<and> proj_z (project v pt) \<le> 80 \<longrightarrow>
               0.1 \<le> proj_p (project v pt) \<and> proj_p (project v pt) \<le> 5)
         \<and> (- 10 < proj_z (project v pt) \<and> proj_z (project v pt) \<le> - 9 \<longrightarrow>
               10 \<le> proj_p (project v pt))
         \<and> (proj_z (project v pt) \<le> - 11 \<longrightarrow> proj_p (project v pt) < 0)
         \<and> (100 \<le> proj_z (project v pt) \<longrightarrow>
               0 < proj_p (project v pt) \<and> proj_p (project v pt) < 0.1)"
  proof
    assume h: "perspective v"
    then have e: "proj_p (project v pt) = 1 / (1 + proj_z (project v pt) * 0.1)"
      by (simp add: project_proj_p)
    show "proj_p (project v pt) = 1 / (1 + proj_z (project v pt) * 0.1)
         \<and> (- 7 \<le> proj_z (project v pt) \<and> proj_z (project v pt) \<le> 80 \<longrightarrow>
               0.1 \<le> proj_p (project v pt) \<and> proj_p (project v pt) \<le> 5)
         \<and> (- 10 < proj_z (project v pt) \<and> proj_z (project v pt) \<le> - 9 \<longrightarrow>
               10 \<le> proj_p (project v pt))
         \<and> (proj_z (project v pt) \<le> - 11 \<longrightarrow> proj_p (project v pt) < 0)
         \<and> (100 \<le> proj_z (project v pt) \<longrightarrow>
               0 < proj_p (project v pt) \<and> proj_p (project v pt) < 0.1)"
      unfolding e using persp_regions [of "proj_z (project v pt)"] by blast
  qed
  from zoom_onWheel [of dY ck st] pm off on show ?thesis by blast
qed

theorem C6_scale_factors_amended_witness:
  "0.1 \<le> zoom (onPointerMove 2 900 0
        \<lparr>rotation = (0, 0), zoom = 1, isDragging = True, lastPos = (0, 0),
         pointers = [(1, (0, 0)), (2, (100, 0))],
         pinch = Some \<lparr>startDist = 100, startZoom = 1\<rparr>\<rparr>)
   \<and> zoom (onPointerMove 2 900 0
        \<lparr>rotation = (0, 0), zoom = 1, isDragging = True, lastPos = (0, 0),
         pointers = [(1, (0, 0)), (2, (100, 0))],
         pinch = Some \<lparr>startDist = 100, startZoom = 1\<rparr>\<rparr>) \<le> 5
   \<and> proj_p (project \<lparr>width = 800, height = 600, rotX = 0, rotY = 0, vzoom = 1, perspective = False\<rparr>
             (0, 0, - 9)) = 1
   \<and> 0.1 \<le> proj_p (project \<lparr>width = 800, height = 600, rotX = 0, rotY = 0, vzoom = 1, perspective = True\<rparr>
             (0, 0, 0))
   \<and> proj_p (project \<lparr>width = 800, height = 600, rotX = 0, rotY = 0, vzoom = 1, perspective = True\<rparr>
             (0, 0, 0)) \<le> 5
   \<and> 10 \<le> proj_p (project \<lparr>width = 800, height = 600, rotX = 0, rotY = 0, vzoom = 1, perspective = True\<rparr>
             (0, 0, - 9))
   \<and> proj_p (project \<lparr>width = 800, height = 600, rotX = 0, rotY = 0, vzoom = 1, perspective = True\<rparr>
             (0, 0, - 20)) < 0
   \<and> proj_p (project \<lparr>width = 800, height = 600, rotX = 0, rotY = 0, vzoom = 1, perspective = True\<rparr>
             (0, 0, 100)) < 0.1"
proof -
  let ?off = "\<lparr>width = 800, height = 600, rotX = 0, rotY = 0, vzoom = 1, perspective = False\<rparr>"
  let ?on = "\<lparr>width = 800, height = 600, rotX = 0, rotY = 0, vzoom = 1, perspective = True\<rparr>"
  let ?b = "\<lparr>startDist = 100, startZoom = 1\<rparr>"
  let ?r2 = "\<lparr>rotation = (0, 0), zoom = 1, isDragging = True, lastPos = (0, 0),
      pointers = [(1, (0, 0)), (2, (100, 0))], pinch = Some ?b\<rparr>"
  have z: "proj_z (project ?on (0, 0, c)) = c" for c by (simp add: project_proj_z)
  have h2: "length (pointers ?r2) = 2 \<and> map_has 2 (pointers ?r2) \<and> pinch ?r2 = Some ?b"
    by simp
  have a: "\<not> perspective ?off" and b: "perspective ?on" by simp_all
  from C6_scale_factors_amended [where st = ?r2 and i = 2 and cx = 900 and cy = 0 and base = ?b
      and v = ?off and pt = "(0, 0, - 9)" and dY = 0 and ck = False] h2 a
  have 1: "0.1 \<le> zoom (onPointerMove 2 900 0 ?r2) \<and> zoom (onPointerMove 2 900 0 ?r2) \<le> 5
      \<and> proj_p (project ?off (0, 0, - 9)) = 1"
    by blast
  from C6_scale_factors_amended [where st = ?r2 and i = 2 and cx = 900 and cy = 0 and base = ?b
      and v = ?on and pt = "(0, 0, 0)" and dY = 0 and ck = False] b z [of 0]
  have 2: "0.1 \<le> proj_p (project ?on (0, 0, 0)) \<and> proj_p (project ?on (0, 0, 0)) \<le> 5"
    by simp
  from C6_scale_factors_amended [where st = ?r2 and i = 2 and cx = 900 and cy = 0 and base = ?b
      and v = ?on and pt = "(0, 0, - 9)" and dY = 0 and ck = False] b z [of "- 9"]
  have 3: "10 \<le> proj_p (project ?on (0, 0, - 9))"
    by simp
  from C6_scale_factors_amended [where st = ?r2 and i = 2 and cx = 900 and cy = 0 and base = ?b
      and v = ?on and pt = "(0, 0, - 20)" and dY = 0 and ck = False] b z [of "- 20"]
  have 4: "proj_p (project ?on (0, 0, - 20)) < 0"
    by simp
  from C6_scale_factors_amended [where st = ?r2 and i = 2 and cx = 900 and cy = 0 and base = ?b
      and v = ?on and pt = "(0, 0, 100)" and dY = 0 and ck = False] b z [of 100]
  have 5: "proj_p (project ?on (0, 0, 100)) < 0.1"
    by simp
  from 1 2 3 4 5 show ?thesis by (intro conjI) simp_all
qed

text \<open>
  Claim C5 says that every move during a pinch sets the zoom to
  \<open>clamp(startZoom * currentDistance / startDistance, 0.1, 5)\<close>. The code divides by
  \<open>max(1, startDistance)\<close>: with the second contact put down half a pixel from the
  first (baseline distance 1/2 at zoom 1) and then moved to distance 2, the zoom
  becomes 2, where the claim's formula gives 4.
\<close>

theorem C5_counterexample:
  "pinch (run [PointerDown 1 0 0, PointerDown 2 (1 / 2) 0] initial)
     = Some \<lparr>startDist = 1 / 2, startZoom = 1\<rparr>
   \<and> contact_distance (pointers (run [PointerDown 1 0 0, PointerDown 2 (1 / 2) 0,
                                        PointerMove 2 2 0] initial)) = 2
   \<and> zoom (run [PointerDown 1 0 0, PointerDown 2 (1 / 2) 0, PointerMove 2 2 0] initial) = 2
   \<and> clamp (1 * 2 / (1 / 2)) 0.1 5 = 4
   \<and> zoom (run [PointerDown 1 0 0, PointerDown 2 (1 / 2) 0, PointerMove 2 2 0] initial)
       \<noteq> clamp (1 * 2 / (1 / 2)) 0.1 5"
  by (simp add: initial_def onPointerDown_def onPointerMove_def Let_def contact_distance_def hypot_0
      clamp_def)

text \<open>
  Claim C5, amended. The pointer-down that brings the number of contacts to two
  appends the new contact and records the distance of the two contacts and the zoom
  of that moment. While two contacts are active and a baseline is recorded, every
  move of one of the two contacts stores the event's position for that contact and
  sets the zoom to \<open>clamp(startZoom * currentDistance / max(1, startDistance), 0.1, 5)\<close>,
  where \<open>currentDistance\<close> is the distance of the two contacts after the event's
  position is stored; this is the claim's formula whenever the baseline distance is
  at least one. The move changes nothing else: the baseline, the rotation, the drag
  flag and the last drag position stay. No move event changes the rotation while two
  contacts are active.
\<close>

theorem C5_pinch_zoom_amended:
  "(length (pointers st) = 1 \<and> \<not> map_has j (pointers st) \<longrightarrow>
      onPointerDown j cx cy st
        = st\<lparr>pointers := pointers st @ [(j, (cx, cy))],
             pinch := Some \<lparr>startDist = contact_distance (pointers st @ [(j, (cx, cy))]),
                             startZoom = zoom st\<rparr>\<rparr>)
   \<and> (length (pointers st) = 2 \<and> map_has i (pointers st) \<and> pinch st = Some base \<longrightarrow>
        onPointerMove i cx cy st
          = st\<lparr>pointers := map_set i (cx, cy) (pointers st),
               zoom := clamp (startZoom base * contact_distance (map_set i (cx, cy) (pointers st))
                                / max 1 (startDist base)) 0.1 5\<rparr>
        \<and> pointers (onPointerMove i cx cy st) = map_set i (cx, cy) (pointers st)
        \<and> zoom (onPointerMove i cx cy st)
          = clamp (startZoom base * contact_distance (map_set i (cx, cy) (pointers st))
                     / max 1 (startDist base)) 0.1 5
        \<and> (1 \<le> startDist base \<longrightarrow>
             zoom (onPointerMove i cx cy st)
               = clamp (startZoom base * contact_distance (map_set i (cx, cy) (pointers st))
                          / startDist base) 0.1 5)
        \<and> pinch (onPointerMove i cx cy st) = Some base
        \<and> length (pointers (onPointerMove i cx cy st)) = 2)
   \<and> (length (pointers st) = 2 \<longrightarrow> rotation (onPointerMove i cx cy st) = rotation st)
   \<and> contact_distance [(i, (pax, pay)), (j, (pbx, pby))] = sqrt ((pax - pbx)\<^sup>2 + (pay - pby)\<^sup>2)
   \<and> map_set i (cx, cy) [(i, (pax, pay)), (j, (pbx, pby))] = [(i, (cx, cy)), (j, (pbx, pby))]
   \<and> (i \<noteq> j \<longrightarrow>
        map_set j (cx, cy) [(i, (pax, pay)), (j, (pbx, pby))] = [(i, (pax, pay)), (j, (cx, cy))])"
proof -
  have a: "length (pointers st) = 1 \<and> \<not> map_has j (pointers st) \<longrightarrow>
      onPointerDown j cx cy st
        = st\<lparr>pointers := pointers st @ [(j, (cx, cy))],
             pinch := Some \<lparr>startDist = contact_distance (pointers st @ [(j, (cx, cy))]),
                             startZoom = zoom st\<rparr>\<rparr>"
    by (simp add: pinch_start)
  have b: "length (pointers st) = 2 \<and> map_has i (pointers st) \<and> pinch st = Some base \<longrightarrow>
        onPointerMove i cx cy st
          = st\<lparr>pointers := map_set i (cx, cy) (pointers st),
               zoom := clamp (startZoom base * contact_distance (map_set i (cx, cy) (pointers st))
                                / max 1 (startDist base)) 0.1 5\<rparr>
        \<and> pointers (onPointerMove i cx cy st) = map_set i (cx, cy) (pointers st)
        \<and> zoom (onPointerMove i cx cy st)
          = clamp (startZoom base * contact_distance (map_set i (cx, cy) (pointers st))
                     / max 1 (startDist base)) 0.1 5
        \<and> (1 \<le> startDist base \<longrightarrow>
             zoom (onPointerMove i cx cy st)
               = clamp (startZoom base * contact_distance (map_set i (cx, cy) (pointers st))
                          / startDist base) 0.1 5)
        \<and> pinch (onPointerMove i cx cy st) = Some base
        \<and> length (pointers (onPointerMove i cx cy st)) = 2"
    by (simp add: pinch_move length_map_set_has max_def)
  have c: "length (pointers st) = 2 \<longrightarrow> rotation (onPointerMove i cx cy st) = rotation st"
    by (simp add: two_contacts_rotation)
  have d: "contact_distance [(i, (pax, pay)), (j, (pbx, pby))] = sqrt ((pax - pbx)\<^sup>2 + (pay - pby)\<^sup>2)"
    by (simp add: contact_distance_def Let_def hypot_def)
  have e: "map_set i (cx, cy) [(i, (pax, pay)), (j, (pbx, pby))] = [(i, (cx, cy)), (j, (pbx, pby))]"
    by simp
  have f: "i \<noteq> j \<longrightarrow>
        map_set j (cx, cy) [(i, (pax, pay)), (j, (pbx, pby))] = [(i, (pax, pay)), (j, (cx, cy))]"
    by simp
  from a b c d e f show ?thesis by (intro conjI)
qed

theorem C5_pinch_zoom_amended_witness:
  "pinch (onPointerDown 2 100 0 (run [PointerDown 1 0 0] initial))
     = Some \<lparr>startDist = 100, startZoom = 1\<rparr>
   \<and> pointers (onPointerMove 2 300 0 (run [PointerDown 1 0 0, PointerDown 2 100 0] initial))
       = [(1, (0, 0)), (2, (300, 0))]
   \<and> zoom (onPointerMove 2 300 0 (run [PointerDown 1 0 0, PointerDown 2 100 0] initial)) = 3
   \<and> rotation (onPointerMove 2 300 0 (run [PointerDown 1 0 0, PointerDown 2 100 0] initial)) = (0, 0)"
proof -
  let ?b = "\<lparr>startDist = 100, startZoom = 1\<rparr>"
  let ?r1 = "\<lparr>rotation = (0, 0), zoom = 1, isDragging = True, lastPos = (0, 0),
      pointers = [(1, (0, 0))], pinch = None\<rparr>"
  let ?r2 = "\<lparr>rotation = (0, 0), zoom = 1, isDragging = True, lastPos = (0, 0),
      pointers = [(1, (0, 0)), (2, (100, 0))], pinch = Some ?b\<rparr>"
  have s1: "run [PointerDown 1 0 0] initial = ?r1"
    by (simp add: initial_def onPointerDown_def Let_def)
  have s2: "run [PointerDown 1 0 0, PointerDown 2 100 0] initial = ?r2"
    using pinch_run_state [of 100] by simp
  have h1: "length (pointers ?r1) = 1 \<and> \<not> map_has 2 (pointers ?r1)" by simp
  have h2: "length (pointers ?r2) = 2 \<and> map_has 2 (pointers ?r2) \<and> pinch ?r2 = Some ?b"
    by simp
  have h3: "1 \<le> startDist ?b" by simp
  from C5_pinch_zoom_amended [where st = ?r1 and j = 2 and cx = 100 and cy = 0 and i = 1
      and base = ?b] h1
  have "onPointerDown 2 100 0 ?r1
        = ?r1\<lparr>pointers := pointers ?r1 @ [(2, (100, 0))],
             pinch := Some \<lparr>startDist = contact_distance (pointers ?r1 @ [(2, (100, 0))]),
                             startZoom = zoom ?r1\<rparr>\<rparr>"
    by blast
  then have b0: "pinch (onPointerDown 2 100 0 ?r1) = Some ?b"
    by (simp add: contact_distance_def hypot_0)
  have d: "contact_distance (map_set 2 (300, 0) (pointers ?r2)) = 300"
    by (simp add: contact_distance_def hypot_0)
  from C5_pinch_zoom_amended [where st = ?r2 and i = 2 and cx = 300 and cy = 0 and base = ?b
      and j = 3] h2 h3
  have "pointers (onPointerMove 2 300 0 ?r2) = map_set 2 (300, 0) (pointers ?r2)
        \<and> zoom (onPointerMove 2 300 0 ?r2)
          = clamp (startZoom ?b * contact_distance (map_set 2 (300, 0) (pointers ?r2))
                     / startDist ?b) 0.1 5
        \<and> rotation (onPointerMove 2 300 0 ?r2) = rotation ?r2"
    by blast
  then have "pointers (onPointerMove 2 300 0 ?r2) = [(1, (0, 0)), (2, (300, 0))]
      \<and> zoom (onPointerMove 2 300 0 ?r2) = 3 \<and> rotation (onPointerMove 2 300 0 ?r2) = (0, 0)"
    unfolding d by (simp add: clamp_def)
  with b0 show ?thesis unfolding s1 s2 by blast
qed

text \<open>
  The single-contact drag. A pointer-down on a canvas without contacts starts it
  and records the position; a move of the only contact while dragging turns the
  view by one hundredth of the difference between the event's position and the
  recorded one, and records the event's position. So in a drag that has had one
  contact since it began, the recorded position is the contact's last position and
  each move turns the view by one hundredth of the pointer's own delta; from rotation
  \<open>(0, 0)\<close> a move by \<open>(10, -20)\<close> gives \<open>(-0.2, 0.1)\<close>.
\<close>

lemma drag_start:
  assumes "pointers st = []"
  shows "onPointerDown i cx cy st =
     st\<lparr>pointers := [(i, (cx, cy))], isDragging := True, lastPos := (cx, cy)\<rparr>"
  using assms by (simp add: onPointerDown_def Let_def)

lemma drag_move:
  assumes "pointers st = [(i, q)]" and "isDragging st"
  shows "onPointerMove i cx cy st =
     st\<lparr>pointers := [(i, (cx, cy))], lastPos := (cx, cy),
        rotation := (fst (rotation st) + (cy - snd (lastPos st)) * 0.01,
                     snd (rotation st) + (cx - fst (lastPos st)) * 0.01)\<rparr>"
  using assms by (simp add: onPointerMove_def Let_def)

lemma drag_session_step:
  assumes "pointers st = [(i, q)]" and "isDragging st" and "lastPos st = q"
  shows "rotation (onPointerMove i cx cy st)
           = (fst (rotation st) + (cy - snd q) * 0.01, snd (rotation st) + (cx - fst q) * 0.01)
         \<and> pointers (onPointerMove i cx cy st) = [(i, (cx, cy))]
         \<and> isDragging (onPointerMove i cx cy st)
         \<and> lastPos (onPointerMove i cx cy st) = (cx, cy)"
  using assms by (simp add: drag_move)

lemma drag_example:
  "rotation (run [PointerDown 1 100 100, PointerMove 1 110 80] initial) = (- 0.2, 0.1)"
  by (simp add: initial_def onPointerDown_def onPointerMove_def Let_def)

text \<open>
  Claim C9 says that during a single-contact drag each move turns the view by one
  hundredth of the pointer's delta since its last move. The code measures the delta
  from \<open>lastPos\<close>, which only a single-contact event writes. After a pinch the
  remaining contact is dragged again, and its first move is measured from where the
  drag stood before the pinch: the contact below moved from 50 to 51, a delta of
  \<open>(1, 0)\<close>, and the rotation about the vertical axis changed by 0.51 instead of
  0.01.
\<close>

theorem C9_drag_after_pinch:
  "pointers (run [PointerDown 1 0 0, PointerDown 2 100 0, PointerMove 1 50 0, PointerUp 2] initial)
     = [(1, (50, 0))]
   \<and> isDragging (run [PointerDown 1 0 0, PointerDown 2 100 0, PointerMove 1 50 0, PointerUp 2] initial)
   \<and> lastPos (run [PointerDown 1 0 0, PointerDown 2 100 0, PointerMove 1 50 0, PointerUp 2] initial)
     = (0, 0)
   \<and> rotation (run [PointerDown 1 0 0, PointerDown 2 100 0, PointerMove 1 50 0, PointerUp 2] initial)
     = (0, 0)
   \<and> rotation (run [PointerDown 1 0 0, PointerDown 2 100 0, PointerMove 1 50 0, PointerUp 2,
                     PointerMove 1 51 0] initial) = (0, 0.51)"
  by (simp add: initial_def onPointerDown_def onPointerMove_def onPointerUp_def Let_def
      contact_distance_def hypot_0)

section \<open>Correctness of the prime sieve\<close>

declare sieve_outer.simps [simp del]

lemma le_floor_sqrt_iff:
  assumes "0 \<le> d" and "0 \<le> m"
  shows "d \<le> \<lfloor>sqrt (real_of_int m)\<rfloor> \<longleftrightarrow> d * d \<le> m"
proof -
  have "d \<le> \<lfloor>sqrt (real_of_int m)\<rfloor> \<longleftrightarrow> real_of_int d \<le> sqrt (real_of_int m)"
    by (simp add: le_floor_iff)
  also have "\<dots> \<longleftrightarrow> sqrt ((real_of_int d)\<^sup>2) \<le> sqrt (real_of_int m)"
    using assms by simp
  also have "\<dots> \<longleftrightarrow> (real_of_int d)\<^sup>2 \<le> real_of_int m"
    by (rule real_sqrt_le_iff)
  also have "\<dots> \<longleftrightarrow> real_of_int (d * d) \<le> real_of_int m"
    by (simp add: power2_eq_square)
  also have "\<dots> \<longleftrightarrow> d * d \<le> m"
    by (rule of_int_le_iff)
  finally show ?thesis .
qed

text \<open>
  The inner loop returns for every positive step, and clears exactly the entries at
  \<open>i, i + p, i + 2p, \<dots>\<close> up to \<open>limit\<close>.
\<close>

lemma sieve_inner_returns:
  assumes "0 < p" and "0 \<le> i"
  shows "\<exists>s'. sieve_inner p limit i s = Some s' \<and> length s' = length s
           \<and> (\<forall>k < length s. s' ! k
                 = (s ! k \<and> \<not> (i \<le> int k \<and> int k \<le> limit \<and> p dvd (int k - i))))"
  using assms(2)
proof (induction "nat (limit + 1 - i)" arbitrary: i s rule: less_induct)
  case less
  show ?case
  proof (cases "i \<le> limit")
    case False
    then have "sieve_inner p limit i s = Some s"
      by (subst sieve_inner.simps) simp
    with False show ?thesis by auto
  next
    case True
    have step: "sieve_inner p limit i s = sieve_inner p limit (i + p) (s[nat i := False])"
      using True by (subst sieve_inner.simps) simp
    have "nat (limit + 1 - (i + p)) < nat (limit + 1 - i)"
      using True assms(1) by simp
    moreover have "0 \<le> i + p" using less.prems assms(1) by simp
    ultimately obtain s' where
      r: "sieve_inner p limit (i + p) (s[nat i := False]) = Some s'"
      and l: "length s' = length (s[nat i := False])"
      and v: "\<forall>k < length (s[nat i := False]). s' ! k
                 = ((s[nat i := False]) ! k
                    \<and> \<not> (i + p \<le> int k \<and> int k \<le> limit \<and> p dvd (int k - (i + p))))"
      using less.hyps [of "i + p" "s[nat i := False]"] by blast
    have "s' ! k = (s ! k \<and> \<not> (i \<le> int k \<and> int k \<le> limit \<and> p dvd (int k - i)))"
      if k: "k < length s" for k
    proof (cases "int k = i")
      case eq: True
      then have "nat i = k" by simp
      then have "(s[nat i := False]) ! k = False" using k by simp
      then have "s' ! k = False" using v k by simp
      moreover have "i \<le> int k \<and> int k \<le> limit \<and> p dvd (int k - i)"
        using eq True by simp
      ultimately show ?thesis by simp
    next
      case ne: False
      then have "nat i \<noteq> k" using less.prems by auto
      then have u: "(s[nat i := False]) ! k = s ! k" by simp
      have d: "p dvd (int k - (i + p)) \<longleftrightarrow> p dvd (int k - i)"
      proof -
        have "p dvd (int k - (i + p)) + p \<longleftrightarrow> p dvd (int k - (i + p))"
          by (rule dvd_add_triv_right_iff)
        moreover have "(int k - (i + p)) + p = int k - i" by simp
        ultimately show ?thesis by simp
      qed
      have "(i + p \<le> int k \<and> p dvd (int k - i)) \<longleftrightarrow> (i \<le> int k \<and> p dvd (int k - i))"
      proof
        assume "i + p \<le> int k \<and> p dvd (int k - i)"
        then show "i \<le> int k \<and> p dvd (int k - i)" using assms(1) by simp
      next
        assume a: "i \<le> int k \<and> p dvd (int k - i)"
        then have "0 < int k - i" using ne by simp
        with a have "p \<le> int k - i" by (intro zdvd_imp_le) simp_all
        with a show "i + p \<le> int k \<and> p dvd (int k - i)" by simp
      qed
      then show ?thesis using v k u d by auto
    qed
    with step r l show ?thesis by simp
  qed
qed


lemma sieve_inv_marked:
  assumes p: "2 \<le> p"
    and inv: "sieve_inv limit p s"
    and len: "length s' = length s"
    and marked: "\<forall>k < length s. s' ! k
                 = (s ! k \<and> \<not> (p * p \<le> int k \<and> int k \<le> limit \<and> p dvd (int k - p * p)))"
  shows "sieve_inv limit (p + 1) s'"
proof -
  have "s' ! nat m \<longleftrightarrow> 2 \<le> m \<and> (\<forall>d. 2 \<le> d \<and> d < p + 1 \<and> d * d \<le> m \<longrightarrow> \<not> d dvd m)"
    if m: "0 \<le> m \<and> m \<le> limit" for m
  proof -
    have k: "nat m < length s" using inv m by (simp add: sieve_inv_def)
    have old: "s ! nat m \<longleftrightarrow> 2 \<le> m \<and> (\<forall>d. 2 \<le> d \<and> d < p \<and> d * d \<le> m \<longrightarrow> \<not> d dvd m)"
      using inv m by (simp add: sieve_inv_def)
    have "p dvd (m - p * p) \<longleftrightarrow> p dvd m"
      by (simp add: dvd_diff_left_iff)
    then have new: "s' ! nat m \<longleftrightarrow> s ! nat m \<and> \<not> (p * p \<le> m \<and> p dvd m)"
      using marked k m by simp
    have split: "(\<forall>d. 2 \<le> d \<and> d < p + 1 \<and> d * d \<le> m \<longrightarrow> \<not> d dvd m)
        \<longleftrightarrow> (\<forall>d. 2 \<le> d \<and> d < p \<and> d * d \<le> m \<longrightarrow> \<not> d dvd m) \<and> \<not> (p * p \<le> m \<and> p dvd m)"
    proof -
      have "d < p + 1 \<longleftrightarrow> d < p \<or> d = p" for d by auto
      then show ?thesis using p by auto
    qed
    show ?thesis unfolding new old split by blast
  qed
  then show ?thesis using inv len by (simp add: sieve_inv_def)
qed

lemma sieve_inv_skip:
  assumes p: "2 \<le> p" and pl: "p \<le> limit"
    and inv: "sieve_inv limit p s"
    and clear: "\<not> s ! nat p"
  shows "sieve_inv limit (p + 1) s"
proof -
  have "\<not> (2 \<le> p \<and> (\<forall>d. 2 \<le> d \<and> d < p \<and> d * d \<le> p \<longrightarrow> \<not> d dvd p))"
    using inv clear p pl by (simp add: sieve_inv_def)
  then obtain d where d: "2 \<le> d" "d < p" "d * d \<le> p" "d dvd p"
    using p by blast
  have "s ! nat m \<longleftrightarrow> 2 \<le> m \<and> (\<forall>e. 2 \<le> e \<and> e < p + 1 \<and> e * e \<le> m \<longrightarrow> \<not> e dvd m)"
    if m: "0 \<le> m \<and> m \<le> limit" for m
  proof -
    have old: "s ! nat m \<longleftrightarrow> 2 \<le> m \<and> (\<forall>e. 2 \<le> e \<and> e < p \<and> e * e \<le> m \<longrightarrow> \<not> e dvd m)"
      using inv m by (simp add: sieve_inv_def)
    have extra: "\<not> (p * p \<le> m \<and> p dvd m)"
      if h: "\<forall>e. 2 \<le> e \<and> e < p \<and> e * e \<le> m \<longrightarrow> \<not> e dvd m"
    proof
      assume a: "p * p \<le> m \<and> p dvd m"
      have "p \<le> p * p" using p by (simp add: mult_le_cancel_left1)
      with d a have "d * d \<le> m" by linarith
      moreover have "d dvd m" using d a by (blast intro: dvd_trans)
      ultimately show False using h d by blast
    qed
    have "(\<forall>e. 2 \<le> e \<and> e < p + 1 \<and> e * e \<le> m \<longrightarrow> \<not> e dvd m)
        \<longleftrightarrow> (\<forall>e. 2 \<le> e \<and> e < p \<and> e * e \<le> m \<longrightarrow> \<not> e dvd m)"
    proof
      assume "\<forall>e. 2 \<le> e \<and> e < p + 1 \<and> e * e \<le> m \<longrightarrow> \<not> e dvd m"
      then show "\<forall>e. 2 \<le> e \<and> e < p \<and> e * e \<le> m \<longrightarrow> \<not> e dvd m" by auto
    next
      assume h: "\<forall>e. 2 \<le> e \<and> e < p \<and> e * e \<le> m \<longrightarrow> \<not> e dvd m"
      show "\<forall>e. 2 \<le> e \<and> e < p + 1 \<and> e * e \<le> m \<longrightarrow> \<not> e dvd m"
      proof (intro allI impI)
        fix e assume e: "2 \<le> e \<and> e < p + 1 \<and> e * e \<le> m"
        show "\<not> e dvd m"
        proof (cases "e = p")
          case True
          then show ?thesis using extra [OF h] e by simp
        next
          case False
          then have "e < p" using e by simp
          then show ?thesis using h e by blast
        qed
      qed
    qed
    then show ?thesis using old by simp
  qed
  then show ?thesis using inv by (simp add: sieve_inv_def)
qed

text \<open>
  The outer loop returns, and on return the invariant holds for every divisor the
  loop has passed.
\<close>

lemma sieve_outer_returns:
  assumes "2 \<le> p" and "upper \<le> limit" and "sieve_inv limit p s"
  shows "\<exists>s'. sieve_outer p upper limit s = Some s' \<and> sieve_inv limit (max p (upper + 1)) s'"
  using assms(1,3)
proof (induction "nat (upper + 1 - p)" arbitrary: p s rule: less_induct)
  case less
  show ?case
  proof (cases "p \<le> upper")
    case False
    then have "sieve_outer p upper limit s = Some s"
      by (subst sieve_outer.simps) simp
    moreover have "max p (upper + 1) = p" using False by simp
    ultimately show ?thesis using less.prems by simp
  next
    case True
    have m: "nat (upper + 1 - (p + 1)) < nat (upper + 1 - p)" using True by simp
    have p1: "2 \<le> p + 1" using less.prems by simp
    have mx: "max (p + 1) (upper + 1) = max p (upper + 1)" using True by simp
    show ?thesis
    proof (cases "s ! nat p")
      case clear: False
      have "sieve_outer p upper limit s = sieve_outer (p + 1) upper limit s"
        using True clear by (subst sieve_outer.simps) simp
      moreover have "sieve_inv limit (p + 1) s"
        using less.prems True assms(2) clear by (intro sieve_inv_skip) simp_all
      ultimately show ?thesis using less.hyps [OF m p1] mx by simp
    next
      case set: True
      have "0 < p" and "0 \<le> p * p" using less.prems by simp_all
      then obtain s1 where
        r: "sieve_inner p limit (p * p) s = Some s1"
        and l: "length s1 = length s"
        and v: "\<forall>k < length s. s1 ! k
                 = (s ! k \<and> \<not> (p * p \<le> int k \<and> int k \<le> limit \<and> p dvd (int k - p * p)))"
        using sieve_inner_returns [of p "p * p" limit s] by blast
      have "sieve_outer p upper limit s = sieve_outer (p + 1) upper limit s1"
        using True set r by (subst sieve_outer.simps) simp
      moreover have "sieve_inv limit (p + 1) s1"
        using less.prems(1,2) l v by (rule sieve_inv_marked)
      ultimately show ?thesis using less.hyps [OF m p1] mx by simp
    qed
  qed
qed


lemma sieve_inv_init:
  assumes "2 \<le> limit"
  shows "sieve_inv limit 2 ((replicate (nat (limit + 1)) True)[1 := False, 0 := False])"
proof -
  have "((replicate (nat (limit + 1)) True)[1 := False, 0 := False]) ! nat m \<longleftrightarrow> 2 \<le> m"
    if m: "0 \<le> m \<and> m \<le> limit" for m
  proof -
    have "nat m < nat (limit + 1)" using m by simp
    then have "((replicate (nat (limit + 1)) True)[1 := False, 0 := False]) ! nat m
        \<longleftrightarrow> nat m \<noteq> 0 \<and> nat m \<noteq> 1"
      by (auto simp add: nth_list_update)
    also have "\<dots> \<longleftrightarrow> 2 \<le> m" using m by auto
    finally show ?thesis .
  qed
  then show ?thesis by (auto simp add: sieve_inv_def)
qed

lemma floor_sqrt_le:
  assumes "0 \<le> limit"
  shows "\<lfloor>sqrt (real_of_int limit)\<rfloor> \<le> limit"
proof (rule ccontr)
  assume "\<not> \<lfloor>sqrt (real_of_int limit)\<rfloor> \<le> limit"
  then have "limit + 1 \<le> \<lfloor>sqrt (real_of_int limit)\<rfloor>" by simp
  then have "(limit + 1) * (limit + 1) \<le> limit"
    using assms le_floor_sqrt_iff [of "limit + 1" limit] by simp
  moreover have "limit < (limit + 1) * (limit + 1)"
    using assms by (simp add: algebra_simps add_pos_nonneg)
  ultimately show False by simp
qed

lemma sieve_inv_final:
  assumes lim: "2 \<le> limit"
    and inv: "sieve_inv limit (max 2 (\<lfloor>sqrt (real_of_int limit)\<rfloor> + 1)) s"
    and m: "0 \<le> m" "m \<le> limit"
  shows "s ! nat m \<longleftrightarrow> m \<in> spec_prime_set limit"
proof -
  let ?u = "\<lfloor>sqrt (real_of_int limit)\<rfloor>"
  have s: "s ! nat m \<longleftrightarrow>
      2 \<le> m \<and> (\<forall>d. 2 \<le> d \<and> d < max 2 (?u + 1) \<and> d * d \<le> m \<longrightarrow> \<not> d dvd m)"
    using inv m by (simp add: sieve_inv_def)
  have b: "d < max 2 (?u + 1) \<and> d * d \<le> m \<longleftrightarrow> d \<le> \<lfloor>sqrt (real_of_int m)\<rfloor>"
    if d: "2 \<le> d" for d
  proof -
    have r: "d \<le> \<lfloor>sqrt (real_of_int m)\<rfloor> \<longleftrightarrow> d * d \<le> m"
      using d m by (intro le_floor_sqrt_iff) simp_all
    have "d \<le> ?u" if "d * d \<le> m"
    proof -
      from that m have "d * d \<le> limit" by simp
      then show ?thesis using d lim le_floor_sqrt_iff [of d limit] by simp
    qed
    then show ?thesis unfolding r by auto
  qed
  have "(\<forall>d. 2 \<le> d \<and> d < max 2 (?u + 1) \<and> d * d \<le> m \<longrightarrow> \<not> d dvd m)
      \<longleftrightarrow> (\<forall>d. 2 \<le> d \<and> d \<le> \<lfloor>sqrt (real_of_int m)\<rfloor> \<longrightarrow> \<not> d dvd m)"
    using b by blast
  then show ?thesis using s m by (simp add: spec_prime_set_def)
qed

lemma sieve_output:
  "filter (\<lambda>m. 0 < m) (map (\<lambda>i. if s ! i then int i else - 1) [0..<length s])
     = map int (filter (\<lambda>i. s ! i \<and> 0 < i) [0..<length s])"
proof -
  have f: "filter (\<lambda>i. 0 < (if s ! i then int i else - 1)) [0..<length s]
      = filter (\<lambda>i. s ! i \<and> 0 < i) [0..<length s]"
    by (rule filter_cong) auto
  have "filter (\<lambda>m. 0 < m) (map (\<lambda>i. if s ! i then int i else - 1) [0..<length s])
      = map (\<lambda>i. if s ! i then int i else - 1)
          (filter (\<lambda>i. 0 < (if s ! i then int i else - 1)) [0..<length s])"
    by (simp add: filter_map o_def)
  also have "\<dots> = map (\<lambda>i. if s ! i then int i else - 1)
          (filter (\<lambda>i. s ! i \<and> 0 < i) [0..<length s])"
    by (simp only: f)
  also have "\<dots> = map int (filter (\<lambda>i. s ! i \<and> 0 < i) [0..<length s])"
    by (rule map_cong) auto
  finally show ?thesis .
qed

lemma sievePrimes_small: "limit < 2 \<Longrightarrow> sievePrimes limit = Some []"
  by (simp add: sievePrimes_def)

lemma spec_prime_set_small: "limit < 2 \<Longrightarrow> spec_prime_set limit = {}"
  by (auto simp add: spec_prime_set_def)

lemma sievePrimes_returns:
  "\<exists>ps. sievePrimes limit = Some ps \<and> set ps = spec_prime_set limit
        \<and> distinct ps \<and> sorted ps"
proof (cases "limit < 2")
  case True
  then show ?thesis by (simp add: sievePrimes_small spec_prime_set_small)
next
  case False
  then have lim: "2 \<le> limit" by simp
  let ?u = "\<lfloor>sqrt (real_of_int limit)\<rfloor>"
  let ?s0 = "(replicate (nat (limit + 1)) True)[1 := False, 0 := False]"
  have "?u \<le> limit" using lim by (intro floor_sqrt_le) simp
  moreover have "sieve_inv limit 2 ?s0" using lim by (rule sieve_inv_init)
  ultimately obtain s where
    r: "sieve_outer 2 ?u limit ?s0 = Some s" and inv: "sieve_inv limit (max 2 (?u + 1)) s"
    using sieve_outer_returns [of 2 ?u limit ?s0] by auto
  let ?ps = "map int (filter (\<lambda>i. s ! i \<and> 0 < i) [0..<length s])"
  have len: "length s = nat (limit + 1)" using inv by (simp add: sieve_inv_def)
  have res: "sievePrimes limit = Some ?ps"
    using False r by (simp add: sievePrimes_def Let_def sieve_output)
  have "set ?ps = spec_prime_set limit"
  proof (intro set_eqI iffI)
    fix m assume "m \<in> set ?ps"
    then obtain i where i: "m = int i" "i < length s" "s ! i" "0 < i" by auto
    then have "0 \<le> m" "m \<le> limit" using len by simp_all
    with sieve_inv_final [OF lim inv, of m] i show "m \<in> spec_prime_set limit" by simp
  next
    fix m assume a: "m \<in> spec_prime_set limit"
    then have b: "2 \<le> m" "m \<le> limit" by (simp_all add: spec_prime_set_def)
    then have "s ! nat m" using sieve_inv_final [OF lim inv, of m] a by simp
    moreover have "nat m < length s" "0 < nat m" using b len by simp_all
    ultimately have "nat m \<in> set (filter (\<lambda>i. s ! i \<and> 0 < i) [0..<length s])" by simp
    then have "int (nat m) \<in> set ?ps" by (simp only: set_map) (rule imageI)
    then show "m \<in> set ?ps" using b by simp
  qed
  moreover have "distinct ?ps" by (simp add: distinct_map inj_on_def)
  moreover have "sorted ?ps"
  proof -
    have "sorted (filter (\<lambda>i. s ! i \<and> 0 < i) [0..<length s])"
      by (intro sorted_wrt_filter) simp
    then show ?thesis by (simp add: sorted_map)
  qed
  ultimately show ?thesis using res by blast
qed

text \<open>The model run on a small input: the primes up to 10.\<close>

lemma sieve_inner_step:
  "i \<le> limit \<Longrightarrow> sieve_inner p limit i s = sieve_inner p limit (i + p) (s[nat i := False])"
  by (subst sieve_inner.simps) simp

lemma sieve_inner_stop: "\<not> i \<le> limit \<Longrightarrow> sieve_inner p limit i s = Some s"
  by (subst sieve_inner.simps) simp

lemma floor_sqrt_10: "\<lfloor>sqrt (real_of_int 10)\<rfloor> = 3"
proof -
  have "3 \<le> \<lfloor>sqrt (real_of_int 10)\<rfloor>" by (subst le_floor_sqrt_iff) simp_all
  moreover have "\<not> 4 \<le> \<lfloor>sqrt (real_of_int 10)\<rfloor>" by (subst le_floor_sqrt_iff) simp_all
  ultimately show ?thesis by linarith
qed

lemma sievePrimes_10: "sievePrimes 10 = Some [2, 3, 5, 7]"
proof -
  have r: "replicate (nat (10 + 1)) True
     = [True, True, True, True, True, True, True, True, True, True, True]"
    by (simp add: eval_nat_numeral)
  have u: "[0..<11] = [0, 1, 2, 3, 4, 5, 6, 7, 8, 9, 10]"
    by (simp add: upt_rec)
  show ?thesis
    unfolding sievePrimes_def Let_def floor_sqrt_10 r
    by (simp add: sieve_outer.simps sieve_inner_step sieve_inner_stop u)
qed

text \<open>
  Claim C1. For every integer \<open>limit\<close>, \<open>sievePrimes\<close> returns, and what it returns
  is exactly the set of the \<open>m\<close> in \<open>[2, limit]\<close> that no \<open>d\<close> in
  \<open>[2, \<lfloor>\<surd>m\<rfloor>]\<close> divides (as a list in ascending order without repetition); for
  every \<open>limit < 2\<close>, zero and one among them, the result is empty.
\<close>

theorem C1_sieve_trial_division:
  "(\<exists>ps. sievePrimes limit = Some ps \<and> set ps = spec_prime_set limit
          \<and> distinct ps \<and> sorted ps)
   \<and> (limit < 2 \<longrightarrow> sievePrimes limit = Some [])"
  using sievePrimes_returns [of limit] sievePrimes_small [of limit] by blast

theorem C1_sieve_trial_division_witness:
  "sievePrimes 0 = Some [] \<and> sievePrimes 1 = Some []
   \<and> sievePrimes 10 = Some [2, 3, 5, 7] \<and> spec_prime_set 10 = {2, 3, 5, 7}"
proof -
  have "sievePrimes 0 = Some []" using C1_sieve_trial_division [of 0] by simp
  moreover have "sievePrimes 1 = Some []" using C1_sieve_trial_division [of 1] by simp
  moreover have "spec_prime_set 10 = {2, 3, 5, 7}"
    using C1_sieve_trial_division [of 10] sievePrimes_10 by auto
  ultimately show ?thesis using sievePrimes_10 by simp
qed

end
